theory Spec2Isabelle
  imports Main "HOL-Library.Char_ord" "HOL-Library.List_Lexorder"
begin

section \<open>JavaScript values used by the linters\<close>

text \<open>
  The linters are TypeScript programs run by Node. A parsed frontmatter block and a parsed
  \<^verbatim>\<open>config.yaml\<close> are plain JavaScript objects. A plain object is modelled by the list of its
  own enumerable string-keyed properties, in the order \<^verbatim>\<open>Object.keys\<close> reports them.
  Strings are byte strings; every string the checks accept is ASCII.
\<close>

type_synonym 'v jsobj = "(string \<times> 'v) list"

text \<open>\<^verbatim>\<open>Object.keys(obj)\<close>.\<close>

definition ownKeys :: "'v jsobj \<Rightarrow> string list" where
  "ownKeys obj = map fst obj"

text \<open>
  The property names every plain object inherits from \<^verbatim>\<open>Object.prototype\<close> (ECMAScript,
  with the legacy accessors of its Annex B). The operator \<^verbatim>\<open>in\<close> follows the prototype
  chain, so \<^verbatim>\<open>k in obj\<close> holds for these names whatever \<^verbatim>\<open>obj\<close> holds itself.
\<close>

definition objectPrototypeKeys :: "string list" where
  "objectPrototypeKeys =
     [''constructor'', ''hasOwnProperty'', ''isPrototypeOf'', ''propertyIsEnumerable'',
      ''toLocaleString'', ''toString'', ''valueOf'', ''__proto__'',
      ''__defineGetter__'', ''__defineSetter__'', ''__lookupGetter__'', ''__lookupSetter__'']"

text \<open>\<^verbatim>\<open>k in obj\<close> for a plain object.\<close>

definition hasProperty :: "'v jsobj \<Rightarrow> string \<Rightarrow> bool" where
  "hasProperty obj k = (k \<in> set (ownKeys obj) \<or> k \<in> set objectPrototypeKeys)"

text \<open>\<^verbatim>\<open>arr.indexOf(x)\<close>: the first position of \<open>x\<close>, or \<open>-1\<close>.\<close>

fun indexOf :: "'a list \<Rightarrow> 'a \<Rightarrow> int" where
  "indexOf [] x = -1"
| "indexOf (y # ys) x =
     (if y = x then 0
      else (let i = indexOf ys x in if i = -1 then -1 else i + 1))"

text \<open>\<^verbatim>\<open>s.includes(p)\<close>: \<open>p\<close> occurs in \<open>s\<close> as a contiguous substring.\<close>

fun includesStr :: "string \<Rightarrow> string \<Rightarrow> bool" where
  "includesStr [] p = (p = [])"
| "includesStr (c # cs) p = (take (length p) (c # cs) = p \<or> includesStr cs p)"

section \<open>Configuration\<close>

text \<open>
  \<^verbatim>\<open>LintConfig\<close> of \<^verbatim>\<open>scripts/lint-zenn.ts\<close>. The two object-valued fields are kept as
  the entry lists \<^verbatim>\<open>Object.entries\<close> yields.
\<close>

record LintConfig =
  propertyOrder :: "string list"
  requiredProperties :: "(string \<times> string list) list"
  bookConfigRequiredProperties :: "string list"
  contentPattern :: string
  contentTypePatterns :: "(string \<times> string list) list"

definition DEFAULT_CONFIG :: LintConfig where
  "DEFAULT_CONFIG =
     \<lparr> propertyOrder =
         [''title'', ''emoji'', ''type'', ''topics'', ''published'', ''published_at''],
       requiredProperties =
         [(''article'', [''title'', ''emoji'', ''type'', ''topics'', ''published'']),
          (''bookChapter'', [''title'']),
          (''default'', [''title'', ''published''])],
       bookConfigRequiredProperties =
         [''title'', ''summary'', ''topics'', ''published'', ''price'', ''chapters''],
       contentPattern = ''articles/**/*.md'',
       contentTypePatterns =
         [(''article'', [''articles/'']), (''bookChapter'', [''books/''])] \<rparr>"

text \<open>
  \<^verbatim>\<open>DEFAULT_CONFIG\<close> of the MDX linter, whose configuration has no field for books.
\<close>

definition DEFAULT_CONFIG_MDX :: LintConfig where
  "DEFAULT_CONFIG_MDX =
     \<lparr> propertyOrder =
         [''title'', ''date'', ''description'', ''tags'', ''category'', ''image'',
          ''recommended'', ''status'', ''draft''],
       requiredProperties =
         [(''blog'', [''title'', ''date'', ''description'', ''tags'', ''category'',
                       ''image'', ''status'']),
          (''snippet'', [''title'', ''date'', ''description'', ''tags'', ''image'',
                          ''status'']),
          (''default'', [''title'', ''date'', ''description''])],
       bookConfigRequiredProperties = [],
       contentPattern = ''content/**/*.mdx'',
       contentTypePatterns =
         [(''blog'', [''/blog/'', CHR 0x5C # ''blog'' @ [CHR 0x5C]]),
          (''snippet'', [''/snippet/'', CHR 0x5C # ''snippet'' @ [CHR 0x5C]])] \<rparr>"

section \<open>Classifier\<close>

fun getContentTypeLoop :: "(string \<times> string list) list \<Rightarrow> string \<Rightarrow> string" where
  "getContentTypeLoop [] path = ''default''"
| "getContentTypeLoop ((t, patterns) # rest) path =
     (if list_ex (includesStr path) patterns then t else getContentTypeLoop rest path)"

text \<open>\<^verbatim>\<open>getContentType\<close> of the Zenn linter: backslashes become slashes first.\<close>

definition getContentType :: "LintConfig \<Rightarrow> string \<Rightarrow> string" where
  "getContentType config filePath =
     (let normalizedPath = map (\<lambda>c. if c = CHR 0x5C then CHR ''/'' else c) filePath
      in getContentTypeLoop (contentTypePatterns config) normalizedPath)"

text \<open>\<^verbatim>\<open>getContentType\<close> of the MDX linter: the path is searched as it is.\<close>

definition getContentTypeMdx :: "LintConfig \<Rightarrow> string \<Rightarrow> string" where
  "getContentTypeMdx config filePath = getContentTypeLoop (contentTypePatterns config) filePath"

text \<open>
  \<^verbatim>\<open>config.requiredProperties[contentType] || []\<close>. A label that is no own key reads
  \<^verbatim>\<open>undefined\<close>, hence \<open>[]\<close>, unless it names an inherited property: that value is
  truthy and has no \<^verbatim>\<open>filter\<close>, so the caller raises \<^verbatim>\<open>TypeError\<close> (\<open>None\<close>).
\<close>

definition requiredPropsFor :: "LintConfig \<Rightarrow> string \<Rightarrow> string list option" where
  "requiredPropsFor config contentType =
     (case map_of (requiredProperties config) contentType of
        Some props \<Rightarrow> Some props
      | None \<Rightarrow> if contentType \<in> set objectPrototypeKeys then None else Some [])"

section \<open>Slugs\<close>

text \<open>The character class \<^verbatim>\<open>[a-z0-9_-]\<close>.\<close>

definition isSlugChar :: "char \<Rightarrow> bool" where
  "isSlugChar c =
     ((97 \<le> (of_char c :: nat) \<and> (of_char c :: nat) \<le> 122)
      \<or> (48 \<le> (of_char c :: nat) \<and> (of_char c :: nat) \<le> 57)
      \<or> c = CHR ''_'' \<or> c = CHR ''-'')"

text \<open>\<^verbatim>\<open>/^[a-z0-9_-]{12,50}$/.test(slug)\<close>; without the flag \<^verbatim>\<open>m\<close> the anchors are the
  two ends of the string.\<close>

definition isValidSlug :: "string \<Rightarrow> bool" where
  "isValidSlug slug = (list_all isSlugChar slug \<and> 12 \<le> length slug \<and> length slug \<le> 50)"

text \<open>
  Node's \<^verbatim>\<open>path\<close> module, POSIX flavour. The last component of a path is what follows its
  last slash, trailing slashes ignored.
\<close>

definition lastComponent :: "string \<Rightarrow> string" where
  "lastComponent p =
     rev (takeWhile (\<lambda>c. c \<noteq> CHR ''/'') (dropWhile (\<lambda>c. c = CHR ''/'') (rev p)))"

text \<open>\<^verbatim>\<open>path.extname(p)\<close>: from the last dot of the last component to its end; empty when
  there is no dot, when the component starts with its only dot, and for \<^verbatim>\<open>..\<close>.\<close>

definition extname :: "string \<Rightarrow> string" where
  "extname p =
     (let comp = lastComponent p;
          afterDot = rev (takeWhile (\<lambda>c. c \<noteq> CHR ''.'') (rev comp));
          startDot = length comp - length afterDot - 1
      in if CHR ''.'' \<notin> set comp \<or> startDot = 0 \<or> comp = ''..'' then []
         else drop startDot comp)"

text \<open>\<^verbatim>\<open>path.basename(p, suffix)\<close>: the last component, without \<open>suffix\<close> when it ends
  with it and is longer.\<close>

definition basename :: "string \<Rightarrow> string \<Rightarrow> string" where
  "basename p suffix =
     (let comp = lastComponent p
      in if suffix \<noteq> [] \<and> length suffix \<le> length p \<and> suffix = p then []
         else if suffix \<noteq> [] \<and> length suffix < length comp
                 \<and> drop (length comp - length suffix) comp = suffix
         then take (length comp - length suffix) comp
         else comp)"

definition extractSlugFromPath :: "string \<Rightarrow> string" where
  "extractSlugFromPath filePath = basename filePath (extname filePath)"

section \<open>Frontmatter validator\<close>

text \<open>
  The callback of \<^verbatim>\<open>currentProps.every(...)\<close>, at position \<open>index\<close> of \<open>arr\<close>.
\<close>

definition orderCallback :: "string list \<Rightarrow> string list \<Rightarrow> nat \<Rightarrow> bool" where
  "orderCallback order arr index =
     (if index = 0 then True
      else (let prevProp = arr ! (index - 1);
                prop = arr ! index;
                prevPropIndex = indexOf order prevProp;
                currentPropIndex = indexOf order prop
            in if prevPropIndex = -1 \<or> currentPropIndex = -1 then True
               else prevPropIndex < currentPropIndex))"

definition isInCorrectOrder :: "string list \<Rightarrow> string list \<Rightarrow> bool" where
  "isInCorrectOrder order currentProps =
     list_all (orderCallback order currentProps) [0..<length currentProps]"

text \<open>
  \<^verbatim>\<open>LintResult\<close>. The field \<^verbatim>\<open>file\<close> is \<open>filePath\<close> here. The optional flag
  \<^verbatim>\<open>invalidSlug\<close> is only ever set to \<^verbatim>\<open>true\<close> and only read for truth, so absent is
  \<open>False\<close>; \<open>slugError\<close> keeps the slug the message names.
\<close>

record LintResult =
  filePath :: string
  contentType :: string
  missing :: "string list"
  wrongOrder :: bool
  currentOrder :: "string list"
  invalidSlug :: bool
  slugError :: "string option"

text \<open>
  \<^verbatim>\<open>lintZennFrontmatter\<close>. The argument \<open>parsed\<close> is what reading and parsing the file
  gave: \<open>None\<close> when \<^verbatim>\<open>readFileSync\<close> or \<^verbatim>\<open>matter\<close> raised, which the function
  catches and answers with \<^verbatim>\<open>null\<close>.
\<close>

definition lintZennFrontmatter ::
  "LintConfig \<Rightarrow> string \<Rightarrow> 'v jsobj option \<Rightarrow> LintResult option" where
  "lintZennFrontmatter config path parsed =
     (case parsed of
        None \<Rightarrow> None
      | Some data \<Rightarrow>
          (let ctype = getContentType config path
           in case requiredPropsFor config ctype of
                None \<Rightarrow> None
              | Some requiredProps \<Rightarrow>
                  (let missingProps = filter (\<lambda>prop. \<not> hasProperty data prop) requiredProps;
                       currentProps = ownKeys data;
                       isOk = isInCorrectOrder (propertyOrder config) currentProps;
                       result = \<lparr> filePath = path, contentType = ctype,
                                  missing = missingProps, wrongOrder = \<not> isOk,
                                  currentOrder = currentProps,
                                  invalidSlug = False, slugError = None \<rparr>
                   in if ctype = ''article''
                      then (let slug = extractSlugFromPath path
                            in if \<not> isValidSlug slug
                               then Some (result\<lparr>invalidSlug := True, slugError := Some slug\<rparr>)
                               else Some result)
                      else Some result)))"

text \<open>\<^verbatim>\<open>lintMdxFrontmatter\<close> of the MDX linter: the same checks without the slug.\<close>

definition lintMdxFrontmatter ::
  "LintConfig \<Rightarrow> string \<Rightarrow> 'v jsobj option \<Rightarrow> LintResult option" where
  "lintMdxFrontmatter config path parsed =
     (case parsed of
        None \<Rightarrow> None
      | Some data \<Rightarrow>
          (let ctype = getContentTypeMdx config path
           in case requiredPropsFor config ctype of
                None \<Rightarrow> None
              | Some requiredProps \<Rightarrow>
                  (let missingProps = filter (\<lambda>prop. \<not> hasProperty data prop) requiredProps;
                       currentProps = ownKeys data;
                       isOk = isInCorrectOrder (propertyOrder config) currentProps
                   in Some \<lparr> filePath = path, contentType = ctype,
                             missing = missingProps, wrongOrder = \<not> isOk,
                             currentOrder = currentProps,
                             invalidSlug = False, slugError = None \<rparr>)))"


section \<open>YAML values\<close>

text \<open>
  What \<^verbatim>\<open>yaml.load\<close> returns for a node: \<^verbatim>\<open>null\<close>, a boolean, a number, a string, an
  array or a plain object. Numbers are integers here (of a number only its truth is read,
  and that \<open>0\<close> is the false one); timestamps and binary nodes are left out.
\<close>

datatype yaml =
    YNull
  | YBool bool
  | YNum int
  | YStr string
  | YSeq "yaml list"
  | YMap "(string \<times> yaml) list"

text \<open>JavaScript truthiness, as \<^verbatim>\<open>if (x)\<close> and \<^verbatim>\<open>x && y\<close> read it.\<close>

fun truthy :: "yaml \<Rightarrow> bool" where
  "truthy YNull = False"
| "truthy (YBool b) = b"
| "truthy (YNum n) = (n \<noteq> 0)"
| "truthy (YStr s) = (s \<noteq> [])"
| "truthy (YSeq xs) = True"
| "truthy (YMap m) = True"

datatype js_error = TypeError

text \<open>
  The callback of \<^verbatim>\<open>chapters.find(...)\<close>:
  \<^verbatim>\<open>typeof chapter !== 'object' || !('file' in chapter) || !('title' in chapter)\<close>.
  \<^verbatim>\<open>typeof null\<close> is \<^verbatim>\<open>'object'\<close> and \<^verbatim>\<open>'file' in null\<close> raises \<^verbatim>\<open>TypeError\<close>; an array
  is an object with neither property.
\<close>

fun isInvalidChapter :: "yaml \<Rightarrow> js_error + bool" where
  "isInvalidChapter (YMap m) = Inr (\<not> hasProperty m ''file'' \<or> \<not> hasProperty m ''title'')"
| "isInvalidChapter (YSeq xs) = Inr True"
| "isInvalidChapter YNull = Inl TypeError"
| "isInvalidChapter (YBool b) = Inr True"
| "isInvalidChapter (YNum n) = Inr True"
| "isInvalidChapter (YStr s) = Inr True"

text \<open>\<^verbatim>\<open>chapters.find(callback)\<close>: the first element the callback accepts, \<open>None\<close> for
  \<^verbatim>\<open>undefined\<close>; an exception of the callback ends the search.\<close>

fun findInvalidChapter :: "yaml list \<Rightarrow> js_error + yaml option" where
  "findInvalidChapter [] = Inr None"
| "findInvalidChapter (chapter # rest) =
     (case isInvalidChapter chapter of
        Inl e \<Rightarrow> Inl e
      | Inr True \<Rightarrow> Inr (Some chapter)
      | Inr False \<Rightarrow> findInvalidChapter rest)"

text \<open>\<^verbatim>\<open>chapter.file\<close>: the own property of a mapping, \<^verbatim>\<open>undefined\<close> (\<open>None\<close>) for every
  other value that passed \<^verbatim>\<open>chapter &&\<close>.\<close>

fun chapterFile :: "yaml \<Rightarrow> yaml option" where
  "chapterFile (YMap m) = map_of m ''file''"
| "chapterFile other = None"

section \<open>Chapter file names\<close>

definition isDigit :: "char \<Rightarrow> bool" where
  "isDigit c = (48 \<le> (of_char c :: nat) \<and> (of_char c :: nat) \<le> 57)"

text \<open>
  A match of \<^verbatim>\<open>/^\d+\.([a-z0-9_-]+)\.md$/\<close> and its group 1. Neither class holds the dot,
  so the digits end at the first dot and the slug at the second.
\<close>

definition matchNumberedChapter :: "string \<Rightarrow> string option" where
  "matchNumberedChapter fileName =
     (let digits = takeWhile isDigit fileName;
          afterDigits = dropWhile isDigit fileName
      in if digits = [] then None
         else case afterDigits of
                [] \<Rightarrow> None
              | c # rest \<Rightarrow>
                  if c \<noteq> CHR ''.'' then None
                  else (let slug = takeWhile isSlugChar rest;
                            afterSlug = dropWhile isSlugChar rest
                        in if slug \<noteq> [] \<and> afterSlug = ''.md'' then Some slug else None))"

definition isNumberedChapterFileName :: "string \<Rightarrow> bool" where
  "isNumberedChapterFileName fileName = (matchNumberedChapter fileName \<noteq> None)"

definition extractSlugFromNumberedChapter :: "string \<Rightarrow> string" where
  "extractSlugFromNumberedChapter fileName =
     (case matchNumberedChapter fileName of
        Some slug \<Rightarrow> if slug \<noteq> [] then slug else fileName
      | None \<Rightarrow> fileName)"

text \<open>\<^verbatim>\<open>s.endsWith(suffix)\<close> and \<^verbatim>\<open>xs.join(sep)\<close>.\<close>

definition endsWith :: "string \<Rightarrow> string \<Rightarrow> bool" where
  "endsWith s suffix =
     (length suffix \<le> length s \<and> drop (length s - length suffix) s = suffix)"

fun join :: "string \<Rightarrow> string list \<Rightarrow> string" where
  "join sep [] = []"
| "join sep [x] = x"
| "join sep (x # y # ys) = x @ sep @ join sep (y # ys)"


section \<open>Book manifest validator\<close>

text \<open>
  The messages a validator stores in \<^verbatim>\<open>chaptersError\<close>, one constructor per message:
  the value is not an array; the array is empty (only \<^verbatim>\<open>scripts/lint-zenn.ts\<close> says so);
  a chapter lacks \<^verbatim>\<open>file\<close> or \<^verbatim>\<open>title\<close>; the directory holds no Markdown file; only some
  files are numbered; slugs repeat, followed by \<^verbatim>\<open>duplicateSlugs.join(', ')\<close>.
\<close>

datatype chapters_error =
    NotAnArray
  | EmptyChapters
  | ChapterLacksFileOrTitle
  | NoMarkdownFiles
  | MixedNumbering
  | DuplicateSlugs string

text \<open>
  \<^verbatim>\<open>BookConfigLintResult\<close>. The optional flags are only ever set to \<^verbatim>\<open>true\<close> and read
  for truth: absent is \<open>False\<close>. The two duplicate fields exist in the later linter only;
  \<^verbatim>\<open>scripts/lint-zenn.ts\<close> never sets them.
\<close>

record BookConfigLintResult =
  dir :: string
  missing :: "string list"
  missingConfigFile :: bool
  invalidChapters :: bool
  chaptersError :: "chapters_error option"
  duplicateChapterSlug :: bool
  duplicateChapterNames :: "string list option"

text \<open>
  What a book directory holds, as far as \<^verbatim>\<open>lintBookConfig\<close> reads it. The manifest
  \<^verbatim>\<open>config.yaml\<close> is absent (\<^verbatim>\<open>existsSync\<close> is false), or reading or parsing it raises,
  or it parses to a value that is no object (\<^verbatim>\<open>undefined\<close> for an empty file, a scalar),
  on which the first \<^verbatim>\<open>in\<close> raises \<^verbatim>\<open>TypeError\<close>, or it parses to a mapping. A manifest
  whose top node is a sequence is not modelled. \<open>dirEntries\<close> is the answer of
  \<^verbatim>\<open>fs.readdirSync(bookDir)\<close>, \<open>None\<close> when it raises.
\<close>

datatype manifest =
    NoManifest
  | UnreadableManifest
  | ScalarManifest
  | MappingManifest "(string \<times> yaml) list"

record book =
  bookDir :: string
  manifest :: manifest
  dirEntries :: "string list option"

definition initialResult :: "string \<Rightarrow> BookConfigLintResult" where
  "initialResult d =
     \<lparr> dir = d, missing = [], missingConfigFile = False, invalidChapters = False,
       chaptersError = None, duplicateChapterSlug = False, duplicateChapterNames = None \<rparr>"

text \<open>The \<^verbatim>\<open>catch\<close> block of \<^verbatim>\<open>lintBookConfig\<close>, applied to the result as it stands when
  the exception is raised.\<close>

definition catchBlock :: "LintConfig \<Rightarrow> BookConfigLintResult \<Rightarrow> BookConfigLintResult" where
  "catchBlock config result = result\<lparr> missing := bookConfigRequiredProperties config \<rparr>"

text \<open>The test \<^verbatim>\<open>if (invalidChapter)\<close> on what \<^verbatim>\<open>find\<close> returned.\<close>

definition foundTruthy :: "yaml option \<Rightarrow> bool" where
  "foundTruthy found = (case found of None \<Rightarrow> False | Some chapter \<Rightarrow> truthy chapter)"

text \<open>
  The duplicate search over the chapter descriptors: \<open>slugs\<close> is the \<^verbatim>\<open>Set\<close>,
  \<open>duplicateSlugs\<close> the array. \<^verbatim>\<open>path.extname\<close> raises \<^verbatim>\<open>TypeError\<close> on a value that is
  no string.
\<close>

fun chapterDuplicates :: "yaml list \<Rightarrow> string set \<Rightarrow> string list \<Rightarrow> js_error + string list" where
  "chapterDuplicates [] slugs duplicateSlugs = Inr duplicateSlugs"
| "chapterDuplicates (chapter # rest) slugs duplicateSlugs =
     (if truthy chapter then
        (case chapterFile chapter of
           None \<Rightarrow> chapterDuplicates rest slugs duplicateSlugs
         | Some v \<Rightarrow>
             if truthy v then
               (case v of
                  YStr f \<Rightarrow>
                    (let slug = basename f (extname f)
                     in if slug \<in> slugs
                        then chapterDuplicates rest slugs (duplicateSlugs @ [slug])
                        else chapterDuplicates rest (insert slug slugs) duplicateSlugs)
                | _ \<Rightarrow> Inl TypeError)
             else chapterDuplicates rest slugs duplicateSlugs)
      else chapterDuplicates rest slugs duplicateSlugs)"

text \<open>The duplicate search of \<^verbatim>\<open>checkNumberedChapterFiles\<close>.\<close>

fun numberedDuplicates :: "string list \<Rightarrow> string set \<Rightarrow> string list \<Rightarrow> string list" where
  "numberedDuplicates [] slugs duplicateSlugs = duplicateSlugs"
| "numberedDuplicates (f # rest) slugs duplicateSlugs =
     (if isNumberedChapterFileName f then
        (let slug = extractSlugFromNumberedChapter f
         in if slug \<in> slugs
            then numberedDuplicates rest slugs (duplicateSlugs @ [slug])
            else numberedDuplicates rest (insert slug slugs) duplicateSlugs)
      else numberedDuplicates rest slugs duplicateSlugs)"

text \<open>\<^verbatim>\<open>checkNumberedChapterFiles\<close>, given the directory listing; it updates \<open>result\<close>.\<close>

definition checkNumberedChapterFiles ::
  "string list \<Rightarrow> BookConfigLintResult \<Rightarrow> BookConfigLintResult" where
  "checkNumberedChapterFiles entries result =
     (let mdFiles = sort (filter (\<lambda>f. endsWith f ''.md'') entries)
      in if length mdFiles = 0
         then result\<lparr> invalidChapters := True, chaptersError := Some NoMarkdownFiles \<rparr>
         else (let nonNumberedFiles = filter (\<lambda>f. \<not> isNumberedChapterFileName f) mdFiles
               in if length nonNumberedFiles > 0 \<and> length nonNumberedFiles \<noteq> length mdFiles
                  then result\<lparr> invalidChapters := True, chaptersError := Some MixedNumbering \<rparr>
                  else (let duplicateSlugs = numberedDuplicates mdFiles {} []
                        in if length duplicateSlugs > 0
                           then result\<lparr> duplicateChapterSlug := True,
                                        duplicateChapterNames := Some duplicateSlugs,
                                        invalidChapters := True,
                                        chaptersError :=
                                          Some (DuplicateSlugs (join '', '' duplicateSlugs)) \<rparr>
                           else result)))"

text \<open>
  The body of \<^verbatim>\<open>if ('chapters' in configData)\<close> in the later linter, by the value of
  \<^verbatim>\<open>configData.chapters\<close>: \<^verbatim>\<open>null\<close> passes every test; an empty array goes to the file
  names; a non-empty array is searched for an invalid chapter and for duplicate slugs;
  anything else is no array.
\<close>

fun checkChapters ::
  "LintConfig \<Rightarrow> string list option \<Rightarrow> BookConfigLintResult \<Rightarrow> yaml \<Rightarrow> BookConfigLintResult" where
  "checkChapters config entries result YNull = result"
| "checkChapters config entries result (YSeq []) =
     (case entries of
        None \<Rightarrow> catchBlock config result
      | Some names \<Rightarrow> checkNumberedChapterFiles names result)"
| "checkChapters config entries result (YSeq (c # cs)) =
     (case findInvalidChapter (c # cs) of
        Inl e \<Rightarrow> catchBlock config result
      | Inr invalidChapter \<Rightarrow>
          (let result1 =
                 (if foundTruthy invalidChapter
                  then result\<lparr> invalidChapters := True,
                               chaptersError := Some ChapterLacksFileOrTitle \<rparr>
                  else result)
           in case chapterDuplicates (c # cs) {} [] of
                Inl e \<Rightarrow> catchBlock config result1
              | Inr duplicateSlugs \<Rightarrow>
                  if length duplicateSlugs > 0
                  then result1\<lparr> duplicateChapterSlug := True,
                                duplicateChapterNames := Some duplicateSlugs \<rparr>
                  else result1))"
| "checkChapters config entries result (YBool v) =
     result\<lparr> invalidChapters := True, chaptersError := Some NotAnArray \<rparr>"
| "checkChapters config entries result (YNum v) =
     result\<lparr> invalidChapters := True, chaptersError := Some NotAnArray \<rparr>"
| "checkChapters config entries result (YStr v) =
     result\<lparr> invalidChapters := True, chaptersError := Some NotAnArray \<rparr>"
| "checkChapters config entries result (YMap v) =
     result\<lparr> invalidChapters := True, chaptersError := Some NotAnArray \<rparr>"

text \<open>
  \<^verbatim>\<open>lintBookConfig\<close> of the later linter (the one with \<^verbatim>\<open>checkNumberedChapterFiles\<close>).
  \<^verbatim>\<open>'chapters' in configData\<close> is a test for an own property, since no object inherits a
  property of that name.
\<close>

definition lintBookConfig :: "LintConfig \<Rightarrow> book \<Rightarrow> BookConfigLintResult" where
  "lintBookConfig config b =
     (let result = initialResult (bookDir b)
      in case manifest b of
           NoManifest \<Rightarrow> result\<lparr> missingConfigFile := True \<rparr>
         | UnreadableManifest \<Rightarrow> catchBlock config result
         | ScalarManifest \<Rightarrow> catchBlock config result
         | MappingManifest configData \<Rightarrow>
             (let missingProps = filter (\<lambda>prop. \<not> hasProperty configData prop)
                                        (bookConfigRequiredProperties config);
                  result = result\<lparr> missing := missingProps \<rparr>
              in case map_of configData ''chapters'' of
                   None \<Rightarrow> result
                 | Some chapters \<Rightarrow> checkChapters config (dirEntries b) result chapters))"

text \<open>The body of \<^verbatim>\<open>if ('chapters' in configData)\<close> in \<^verbatim>\<open>scripts/lint-zenn.ts\<close>.\<close>

fun checkChapters_scripts ::
  "LintConfig \<Rightarrow> BookConfigLintResult \<Rightarrow> yaml \<Rightarrow> BookConfigLintResult" where
  "checkChapters_scripts config result (YSeq []) =
     result\<lparr> invalidChapters := True, chaptersError := Some EmptyChapters \<rparr>"
| "checkChapters_scripts config result (YSeq (c # cs)) =
     (case findInvalidChapter (c # cs) of
        Inl e \<Rightarrow> catchBlock config result
      | Inr invalidChapter \<Rightarrow>
          if foundTruthy invalidChapter
          then result\<lparr> invalidChapters := True, chaptersError := Some ChapterLacksFileOrTitle \<rparr>
          else result)"
| "checkChapters_scripts config result YNull =
     result\<lparr> invalidChapters := True, chaptersError := Some NotAnArray \<rparr>"
| "checkChapters_scripts config result (YBool v) =
     result\<lparr> invalidChapters := True, chaptersError := Some NotAnArray \<rparr>"
| "checkChapters_scripts config result (YNum v) =
     result\<lparr> invalidChapters := True, chaptersError := Some NotAnArray \<rparr>"
| "checkChapters_scripts config result (YStr v) =
     result\<lparr> invalidChapters := True, chaptersError := Some NotAnArray \<rparr>"
| "checkChapters_scripts config result (YMap v) =
     result\<lparr> invalidChapters := True, chaptersError := Some NotAnArray \<rparr>"

text \<open>\<^verbatim>\<open>lintBookConfig\<close> of \<^verbatim>\<open>scripts/lint-zenn.ts\<close>.\<close>

definition lintBookConfig_scripts :: "LintConfig \<Rightarrow> book \<Rightarrow> BookConfigLintResult" where
  "lintBookConfig_scripts config b =
     (let result = initialResult (bookDir b)
      in case manifest b of
           NoManifest \<Rightarrow> result\<lparr> missingConfigFile := True \<rparr>
         | UnreadableManifest \<Rightarrow> catchBlock config result
         | ScalarManifest \<Rightarrow> catchBlock config result
         | MappingManifest configData \<Rightarrow>
             (let missingProps = filter (\<lambda>prop. \<not> hasProperty configData prop)
                                        (bookConfigRequiredProperties config);
                  result = result\<lparr> missing := missingProps \<rparr>
              in case map_of configData ''chapters'' of
                   None \<Rightarrow> result
                 | Some chapters \<Rightarrow> checkChapters_scripts config result chapters))"


section \<open>Repeated entries\<close>

text \<open>
  The entries of a list that repeat an earlier entry, or an entry of \<open>seen\<close>, in the order
  of the list. It states what the two duplicate searches collect.
\<close>

fun repeatedEntries :: "'a list \<Rightarrow> 'a set \<Rightarrow> 'a list" where
  "repeatedEntries [] seen = []"
| "repeatedEntries (x # xs) seen =
     (if x \<in> seen then x # repeatedEntries xs seen else repeatedEntries xs (insert x seen))"

text \<open>The slug a chapter descriptor contributes to the duplicate search, if any: the base
  name without extension of a \<^verbatim>\<open>file\<close> that is a non-empty string.\<close>

fun descriptorSlug :: "yaml \<Rightarrow> string option" where
  "descriptorSlug (YMap m) =
     (case map_of m ''file'' of
        Some (YStr f) \<Rightarrow> if f \<noteq> [] then Some (basename f (extname f)) else None
      | _ \<Rightarrow> None)"
| "descriptorSlug other = None"

text \<open>A chapter descriptor as the manifest format means it: a mapping whose \<^verbatim>\<open>file\<close>, when
  it has one, is a string.\<close>

fun isDescriptor :: "yaml \<Rightarrow> bool" where
  "isDescriptor (YMap m) =
     (case map_of m ''file'' of None \<Rightarrow> True | Some (YStr f) \<Rightarrow> True | Some other \<Rightarrow> False)"
| "isDescriptor other = False"


section \<open>Running the linter\<close>

text \<open>
  A line of the report, one constructor per \<^verbatim>\<open>console.log\<close> of the report section; the
  arguments are the interpolated values (lists already joined with \<^verbatim>\<open>", "\<close>).
\<close>

datatype report_line =
    NoFilesWarning
  | FrontmatterHeader nat
  | FileLine string string
  | MissingLine string
  | WrongOrderLine
  | CurrentOrderLine string
  | RecommendedOrderLine string
  | FixedLine
  | SlugErrorLine "string option"
  | BookHeader nat
  | BookDirLine string
  | MissingConfigFileLine
  | BookMissingLine string
  | ChaptersErrorLine "chapters_error option"
  | DuplicateSlugLine string
  | FixHintLine
  | AllValidLine

text \<open>
  The variables the two \<^verbatim>\<open>forEach\<close> loops of the run update; \<open>rewritten\<close> lists the
  files handed to \<^verbatim>\<open>sortFrontmatter\<close>.
\<close>

record run_state =
  hasErrors :: bool
  frontmatterResults :: "LintResult list"
  bookConfigResults :: "BookConfigLintResult list"
  rewritten :: "string list"

definition initialState :: run_state where
  "initialState =
     \<lparr> hasErrors = False, frontmatterResults = [], bookConfigResults = [], rewritten = [] \<rparr>"

text \<open>The condition under which a document result is kept:
  \<^verbatim>\<open>result.missing.length > 0 || result.wrongOrder || result.invalidSlug\<close>.\<close>

definition documentFlagged :: "LintResult \<Rightarrow> bool" where
  "documentFlagged result =
     (length (LintResult.missing result) > 0 \<or> wrongOrder result \<or> invalidSlug result)"

text \<open>
  The loop over \<^verbatim>\<open>[...articleFiles, ...chapterFiles]\<close>. Each file comes with what reading
  and parsing it gives at the moment it is linted.
\<close>

fun lintFiles ::
  "bool \<Rightarrow> LintConfig \<Rightarrow> (string \<times> 'v jsobj option) list \<Rightarrow> run_state \<Rightarrow> run_state" where
  "lintFiles fix config [] st = st"
| "lintFiles fix config ((path, parsed) # rest) st =
     (case lintZennFrontmatter config path parsed of
        None \<Rightarrow> lintFiles fix config rest st
      | Some result \<Rightarrow>
          if documentFlagged result
          then lintFiles fix config rest
                 (st\<lparr> frontmatterResults := frontmatterResults st @ [result],
                      hasErrors := True,
                      rewritten := (if fix \<and> wrongOrder result then rewritten st @ [path]
                                    else rewritten st) \<rparr>)
          else lintFiles fix config rest st)"

text \<open>The condition under which a book result is kept, in the later linter:
  \<^verbatim>\<open>result.missing.length > 0 || result.missingConfigFile || result.invalidChapters ||
  result.duplicateChapterSlug\<close>.\<close>

definition bookFlagged :: "BookConfigLintResult \<Rightarrow> bool" where
  "bookFlagged result =
     (length (BookConfigLintResult.missing result) > 0 \<or> missingConfigFile result
      \<or> invalidChapters result \<or> duplicateChapterSlug result)"

fun lintBooks :: "LintConfig \<Rightarrow> book list \<Rightarrow> run_state \<Rightarrow> run_state" where
  "lintBooks config [] st = st"
| "lintBooks config (b # rest) st =
     (let result = lintBookConfig config b
      in if bookFlagged result
         then lintBooks config rest
                (st\<lparr> bookConfigResults := bookConfigResults st @ [result], hasErrors := True \<rparr>)
         else lintBooks config rest st)"

text \<open>The lines printed for one kept document result.\<close>

definition frontmatterReport :: "bool \<Rightarrow> LintConfig \<Rightarrow> LintResult \<Rightarrow> report_line list" where
  "frontmatterReport fix config result =
     [FileLine (filePath result) (contentType result)]
     @ (if length (LintResult.missing result) > 0
        then [MissingLine (join '', '' (LintResult.missing result))] else [])
     @ (if wrongOrder result
        then [WrongOrderLine, CurrentOrderLine (join '', '' (currentOrder result)),
              RecommendedOrderLine (join '', '' (propertyOrder config))]
             @ (if fix then [FixedLine] else [])
        else [])
     @ (if invalidSlug result then [SlugErrorLine (slugError result)] else [])"

text \<open>The lines printed for one kept book result, in the later linter.\<close>

definition bookReport :: "BookConfigLintResult \<Rightarrow> report_line list" where
  "bookReport result =
     [BookDirLine (dir result)]
     @ (if missingConfigFile result then [MissingConfigFileLine] else [])
     @ (if length (BookConfigLintResult.missing result) > 0
        then [BookMissingLine (join '', '' (BookConfigLintResult.missing result))] else [])
     @ (if invalidChapters result then [ChaptersErrorLine (chaptersError result)] else [])
     @ (if duplicateChapterSlug result
        then [DuplicateSlugLine
                (join '', '' (case duplicateChapterNames result of
                                 None \<Rightarrow> [] | Some names \<Rightarrow> names))]
        else [])"

definition reportLines ::
  "bool \<Rightarrow> LintConfig \<Rightarrow> (BookConfigLintResult \<Rightarrow> report_line list) \<Rightarrow> run_state
     \<Rightarrow> report_line list" where
  "reportLines fix config perBook st =
     (let resultsShown = (length (frontmatterResults st) > 0
                          \<or> length (bookConfigResults st) > 0)
      in (if length (frontmatterResults st) > 0
          then FrontmatterHeader (length (frontmatterResults st))
               # concat (map (frontmatterReport fix config) (frontmatterResults st))
          else [])
         @ (if length (bookConfigResults st) > 0
            then BookHeader (length (bookConfigResults st))
                 # concat (map perBook (bookConfigResults st))
            else [])
         @ (if resultsShown \<and> \<not> fix then [FixHintLine]
            else if \<not> resultsShown then [AllValidLine] else []))"

text \<open>What a run leaves behind: the report, the exit code of the process, the files
  handed to \<^verbatim>\<open>sortFrontmatter\<close>.\<close>

record run_result =
  report :: "report_line list"
  exitCode :: nat
  fixedFiles :: "string list"

text \<open>
  \<^verbatim>\<open>runMainWithoutExit\<close> of the later linter. \<open>fix\<close> is
  \<^verbatim>\<open>process.argv.includes("--fix")\<close>; \<open>files\<close> are the globbed articles and chapters,
  \<open>books\<close> the directories under \<^verbatim>\<open>books\<close>. The process ends with code 1 when
  \<^verbatim>\<open>process.exit(1)\<close> is reached and with 0 otherwise.
\<close>

definition runState ::
  "bool \<Rightarrow> LintConfig \<Rightarrow> (string \<times> 'v jsobj option) list \<Rightarrow> book list \<Rightarrow> run_state" where
  "runState fix config files books =
     lintBooks config books (lintFiles fix config files initialState)"

definition runMainWithoutExit ::
  "bool \<Rightarrow> LintConfig \<Rightarrow> (string \<times> 'v jsobj option) list \<Rightarrow> book list \<Rightarrow> run_result" where
  "runMainWithoutExit fix config files books =
     (if length files = 0 \<and> length books = 0
      then \<lparr> report = [NoFilesWarning], exitCode = 0, fixedFiles = [] \<rparr>
      else (let st = runState fix config files books
            in \<lparr> report = reportLines fix config bookReport st,
                 exitCode = (if hasErrors st \<and> \<not> fix then 1 else 0),
                 fixedFiles = rewritten st \<rparr>))"

text \<open>
  \<^verbatim>\<open>main\<close> of \<^verbatim>\<open>scripts/lint-zenn.ts\<close>: the book results are kept on
  \<^verbatim>\<open>result.missing.length > 0 || result.missingConfigFile || result.invalidChapters\<close>, and
  the report of a book prints the missing-properties line only for a directory whose path
  contains \<^verbatim>\<open>zenn-book-sample\<close>, with the fixed text \<^verbatim>\<open>price\<close>.
\<close>

definition bookFlagged_scripts :: "BookConfigLintResult \<Rightarrow> bool" where
  "bookFlagged_scripts result =
     (length (BookConfigLintResult.missing result) > 0 \<or> missingConfigFile result
      \<or> invalidChapters result)"

fun lintBooks_scripts :: "LintConfig \<Rightarrow> book list \<Rightarrow> run_state \<Rightarrow> run_state" where
  "lintBooks_scripts config [] st = st"
| "lintBooks_scripts config (b # rest) st =
     (let result = lintBookConfig_scripts config b
      in if bookFlagged_scripts result
         then lintBooks_scripts config rest
                (st\<lparr> bookConfigResults := bookConfigResults st @ [result], hasErrors := True \<rparr>)
         else lintBooks_scripts config rest st)"

definition bookReport_scripts :: "BookConfigLintResult \<Rightarrow> report_line list" where
  "bookReport_scripts result =
     [BookDirLine (dir result)]
     @ (if missingConfigFile result then [MissingConfigFileLine] else [])
     @ (if includesStr (dir result) ''zenn-book-sample'' then [BookMissingLine ''price''] else [])
     @ (if invalidChapters result then [ChaptersErrorLine (chaptersError result)] else [])"

definition main_scripts ::
  "bool \<Rightarrow> LintConfig \<Rightarrow> (string \<times> 'v jsobj option) list \<Rightarrow> book list \<Rightarrow> run_result" where
  "main_scripts fix config files books =
     (if length files = 0 \<and> length books = 0
      then \<lparr> report = [NoFilesWarning], exitCode = 0, fixedFiles = [] \<rparr>
      else (let st = lintBooks_scripts config books (lintFiles fix config files initialState)
            in \<lparr> report = reportLines fix config bookReport_scripts st,
                 exitCode = (if hasErrors st \<and> \<not> fix then 1 else 0),
                 fixedFiles = rewritten st \<rparr>))"


section \<open>Frontmatter normalizer\<close>

text \<open>
  The order in which a plain object reports its own keys is fixed by the language: first the
  keys that are array indices, ascending, then every other string key in the order of
  creation. An array index is a key that is the decimal numeral of a number below
  \<open>2\<^sup>3\<^sup>2 - 1\<close>, the numeral that number prints as.
\<close>

definition digitValue :: "char \<Rightarrow> nat" where
  "digitValue c = of_char c - 48"

definition parseDigits :: "string \<Rightarrow> nat" where
  "parseDigits s = foldl (\<lambda>n c. 10 * n + digitValue c) 0 s"

definition digitChar :: "nat \<Rightarrow> char" where
  "digitChar d = ''0123456789'' ! d"

text \<open>The numeral a non-negative integer prints as.\<close>

fun decimal :: "nat \<Rightarrow> string" where
  "decimal n =
     (if n < 10 then [digitChar n]
      else decimal (n div 10) @ [digitChar (n mod 10)])"

declare decimal.simps [simp del]

definition arrayIndex :: "string \<Rightarrow> nat option" where
  "arrayIndex k =
     (if k \<noteq> [] \<and> list_all isDigit k \<and> decimal (parseDigits k) = k
         \<and> parseDigits k < 4294967295
      then Some (parseDigits k) else None)"

text \<open>
  A value of the frontmatter as the parser gives it: a scalar (string, number, boolean),
  null, a timestamp (a \<^verbatim>\<open>Date\<close>), a sequence (an \<^verbatim>\<open>Array\<close>) or a mapping (a plain object
  with these own properties); or, read through the prototype chain, what a name inherited
  from \<^verbatim>\<open>Object.prototype\<close> stands for (a built-in function, or for \<^verbatim>\<open>__proto__\<close> the
  prototype object itself).
\<close>

datatype 'v jsval =
    Data 'v
  | Null
  | Timestamp 'v
  | Sequence "'v jsval list"
  | Mapping "(string \<times> 'v jsval) list"
  | Inherited string

text \<open>\<^verbatim>\<open>obj[k]\<close>, read where \<^verbatim>\<open>k in obj\<close> holds: the own value, else the inherited one.\<close>

definition getProperty :: "'v jsval jsobj \<Rightarrow> string \<Rightarrow> 'v jsval" where
  "getProperty obj k = (case map_of obj k of Some v \<Rightarrow> v | None \<Rightarrow> Inherited k)"

text \<open>The creation of a property under a key the object does not own: an array index goes
  to its place among the indices, any other key to the end.\<close>

definition insertProperty :: "string \<Rightarrow> 'v \<Rightarrow> 'v jsobj \<Rightarrow> 'v jsobj" where
  "insertProperty k v obj =
     (case arrayIndex k of
        None \<Rightarrow> obj @ [(k, v)]
      | Some n \<Rightarrow>
          (let smaller = takeWhile (\<lambda>(k', v'). case arrayIndex k' of
                                                    Some n' \<Rightarrow> n' < n | None \<Rightarrow> False) obj
           in smaller @ (k, v) # drop (length smaller) obj))"

text \<open>
  The object \<^verbatim>\<open>sortedData\<close> starts as \<^verbatim>\<open>{}\<close>, with \<^verbatim>\<open>Object.prototype\<close> as its
  prototype. The assignment \<^verbatim>\<open>sortedData['__proto__'] = v\<close> reaches the setter of
  \<^verbatim>\<open>Object.prototype\<close>, which replaces the prototype when \<^verbatim>\<open>v\<close> is an object or null:
  by a mapping, by a sequence, by a timestamp, or by nothing. So the object is kept with
  its prototype.
\<close>

datatype 'v prototype =
    ObjectPrototype
  | NoPrototype
  | TimestampPrototype
  | SequencePrototype "'v jsval list"
  | MappingPrototype "(string \<times> 'v jsval) list"

record 'v jsobject =
  properties :: "'v jsval jsobj"
  prototype :: "'v prototype"

text \<open>The string-keyed property names of \<^verbatim>\<open>Array.prototype\<close> (ECMAScript 2023) that
  \<^verbatim>\<open>Object.prototype\<close> does not have as well.\<close>

definition arrayPrototypeKeys :: "string list" where
  "arrayPrototypeKeys =
     [''length'', ''at'', ''concat'', ''copyWithin'', ''fill'', ''find'', ''findIndex'',
      ''findLast'', ''findLastIndex'', ''lastIndexOf'', ''pop'', ''push'', ''reverse'',
      ''shift'', ''unshift'', ''slice'', ''sort'', ''splice'', ''includes'', ''indexOf'',
      ''join'', ''keys'', ''entries'', ''values'', ''forEach'', ''filter'', ''flat'',
      ''flatMap'', ''map'', ''every'', ''some'', ''reduce'', ''reduceRight'',
      ''toReversed'', ''toSorted'', ''toSpliced'', ''with'']"

text \<open>The string-keyed property names of \<^verbatim>\<open>Date.prototype\<close> (ECMAScript 2023, with its
  Annex B) that \<^verbatim>\<open>Object.prototype\<close> does not have as well.\<close>

definition datePrototypeKeys :: "string list" where
  "datePrototypeKeys =
     [''toDateString'', ''toTimeString'', ''toISOString'', ''toUTCString'', ''toGMTString'',
      ''getDate'', ''setDate'', ''getDay'', ''getFullYear'', ''setFullYear'', ''getHours'',
      ''setHours'', ''getMilliseconds'', ''setMilliseconds'', ''getMinutes'', ''setMinutes'',
      ''getMonth'', ''setMonth'', ''getSeconds'', ''setSeconds'', ''getTime'', ''setTime'',
      ''getTimezoneOffset'', ''getUTCDate'', ''setUTCDate'', ''getUTCDay'',
      ''getUTCFullYear'', ''setUTCFullYear'', ''getUTCHours'', ''setUTCHours'',
      ''getUTCMilliseconds'', ''setUTCMilliseconds'', ''getUTCMinutes'', ''setUTCMinutes'',
      ''getUTCMonth'', ''setUTCMonth'', ''getUTCSeconds'', ''setUTCSeconds'', ''getYear'',
      ''setYear'', ''toJSON'', ''toLocaleDateString'', ''toLocaleTimeString'']"

text \<open>
  The names found on the chain behind an object. A mapping and a sequence of the
  frontmatter have \<^verbatim>\<open>Object.prototype\<close> and \<^verbatim>\<open>Array.prototype\<close> behind them, a
  timestamp \<^verbatim>\<open>Date.prototype\<close>; a sequence owns its indices and \<^verbatim>\<open>length\<close>, a timestamp
  owns no name.
\<close>

fun inChain :: "'v prototype \<Rightarrow> string \<Rightarrow> bool" where
  "inChain ObjectPrototype k = (k \<in> set objectPrototypeKeys)"
| "inChain NoPrototype k = False"
| "inChain TimestampPrototype k =
     (k \<in> set datePrototypeKeys \<or> k \<in> set objectPrototypeKeys)"
| "inChain (SequencePrototype xs) k =
     ((case arrayIndex k of Some n \<Rightarrow> n < length xs | None \<Rightarrow> False)
      \<or> k \<in> set arrayPrototypeKeys \<or> k \<in> set objectPrototypeKeys)"
| "inChain (MappingPrototype kvs) k = hasProperty kvs k"

text \<open>\<^verbatim>\<open>k in obj\<close>.\<close>

definition inObject :: "'v jsobject \<Rightarrow> string \<Rightarrow> bool" where
  "inObject obj k = (k \<in> set (ownKeys (properties obj)) \<or> inChain (prototype obj) k)"

text \<open>
  Whether an assignment to \<^verbatim>\<open>__proto__\<close>, on an object that does not own the name, finds
  the setter of \<^verbatim>\<open>Object.prototype\<close>. It does not behind a null prototype, and not
  behind a mapping that owns a property of that name (the parser creates one for a
  \<^verbatim>\<open>__proto__\<close> key): then the assignment creates an own property, as for any name.
\<close>

fun setterInherited :: "'v prototype \<Rightarrow> bool" where
  "setterInherited ObjectPrototype = True"
| "setterInherited NoPrototype = False"
| "setterInherited TimestampPrototype = True"
| "setterInherited (SequencePrototype xs) = True"
| "setterInherited (MappingPrototype kvs) = (''__proto__'' \<notin> set (ownKeys kvs))"

text \<open>
  The prototype after the setter ran with the value \<open>v\<close>. A scalar is ignored;
  \<open>Inherited ''__proto__''\<close> is \<^verbatim>\<open>Object.prototype\<close> itself. A built-in function as
  the value is not followed: no parser gives one (see \<open>builtinFunction\<close>).
\<close>

fun prototypeSetter :: "'v jsval \<Rightarrow> 'v prototype \<Rightarrow> 'v prototype" where
  "prototypeSetter (Mapping kvs) current = MappingPrototype kvs"
| "prototypeSetter (Sequence xs) current = SequencePrototype xs"
| "prototypeSetter Null current = NoPrototype"
| "prototypeSetter (Timestamp t) current = TimestampPrototype"
| "prototypeSetter (Data d) current = current"
| "prototypeSetter (Inherited k) current =
     (if k = ''__proto__'' then ObjectPrototype else current)"

fun builtinFunction :: "'v jsval \<Rightarrow> bool" where
  "builtinFunction (Inherited k) = (k \<in> set objectPrototypeKeys \<and> k \<noteq> ''__proto__'')"
| "builtinFunction (Data d) = False"
| "builtinFunction Null = False"
| "builtinFunction (Timestamp t) = False"
| "builtinFunction (Sequence xs) = False"
| "builtinFunction (Mapping kvs) = False"

text \<open>
  \<^verbatim>\<open>obj[k] = v\<close>. An own property keeps its place and takes the value. Otherwise the name
  \<^verbatim>\<open>__proto__\<close> runs the inherited setter, where there is one, and creates no property;
  every other assignment creates the property. (The properties that the objects above
  hand down are writable data properties, so the assignment is never refused.)
\<close>

definition setProperty :: "string \<Rightarrow> 'v jsval \<Rightarrow> 'v jsobject \<Rightarrow> 'v jsobject" where
  "setProperty k v obj =
     (if k \<in> set (ownKeys (properties obj))
      then obj\<lparr> properties :=
                  map (\<lambda>(k', v'). if k' = k then (k', v) else (k', v')) (properties obj) \<rparr>
      else if k = ''__proto__'' \<and> setterInherited (prototype obj)
      then obj\<lparr> prototype := prototypeSetter v (prototype obj) \<rparr>
      else obj\<lparr> properties := insertProperty k v (properties obj) \<rparr>)"

text \<open>
  The object \<^verbatim>\<open>sortedData\<close> that \<^verbatim>\<open>sortFrontmatter\<close> builds from the parsed frontmatter
  \<open>parsed\<close>, a plain object: the first loop runs over the canonical order, the second over
  \<^verbatim>\<open>Object.keys(data)\<close>. What is handed on for writing are its own properties.
\<close>

definition sortedDataOf :: "string list \<Rightarrow> 'v jsval jsobj \<Rightarrow> 'v jsval jsobj" where
  "sortedDataOf order parsed =
     (let listed =
            foldl (\<lambda>sortedData prop.
                     if hasProperty parsed prop
                     then setProperty prop (getProperty parsed prop) sortedData
                     else sortedData)
                  \<lparr> properties = [], prototype = ObjectPrototype \<rparr> order;
          rebuilt =
            foldl (\<lambda>sortedData prop.
                     if \<not> inObject sortedData prop
                     then setProperty prop (getProperty parsed prop) sortedData
                     else sortedData) listed (ownKeys parsed)
      in properties rebuilt)"

text \<open>A parsed document, \<^verbatim>\<open>matter(content)\<close>: the frontmatter and the text after it.\<close>

record 'v document =
  frontmatter :: "'v jsval jsobj"
  content :: string

text \<open>\<^verbatim>\<open>sortFrontmatter\<close>: what it hands to \<^verbatim>\<open>matter.stringify\<close> for writing.\<close>

definition sortFrontmatter :: "LintConfig \<Rightarrow> 'v document \<Rightarrow> 'v document" where
  "sortFrontmatter config doc =
     \<lparr> frontmatter = sortedDataOf (propertyOrder config) (frontmatter doc),
       content = content doc \<rparr>"

text \<open>The first occurrences of the entries of a list, in order.\<close>

fun firstOccurrences :: "'a list \<Rightarrow> 'a list" where
  "firstOccurrences [] = []"
| "firstOccurrences (x # xs) = x # firstOccurrences (filter (\<lambda>y. y \<noteq> x) xs)"


section \<open>Property order\<close>

definition isIndexKey :: "string \<Rightarrow> bool" where
  "isIndexKey k = (arrayIndex k \<noteq> None)"

definition indexOfKey :: "string \<Rightarrow> nat" where
  "indexOfKey k = (case arrayIndex k of Some n \<Rightarrow> n | None \<Rightarrow> 0)"

text \<open>
  The shape of the property list of every plain object: no key twice, the array indices
  first and ascending, the other keys after them.
\<close>

definition propertyOrdered :: "'v jsobj \<Rightarrow> bool" where
  "propertyOrdered obj =
     (distinct (ownKeys obj)
      \<and> obj = filter (\<lambda>p. isIndexKey (fst p)) obj @ filter (\<lambda>p. \<not> isIndexKey (fst p)) obj
      \<and> sorted_wrt (\<lambda>p q. indexOfKey (fst p) < indexOfKey (fst q))
           (filter (\<lambda>p. isIndexKey (fst p)) obj))"

text \<open>
  A loop that creates, for each key of \<open>ks\<close> that passes \<open>G\<close> and is not yet owned, the
  property with the value \<open>f\<close> gives. Both loops of the normalizer are of this form.
\<close>

definition addNew ::
  "(string \<Rightarrow> bool) \<Rightarrow> (string \<Rightarrow> 'v) \<Rightarrow> 'v jsobj \<Rightarrow> string list \<Rightarrow> 'v jsobj" where
  "addNew G f obj ks =
     foldl (\<lambda>acc k. if G k \<and> k \<notin> set (ownKeys acc) then insertProperty k (f k) acc
                      else acc) obj ks"

text \<open>
  The prototype of \<^verbatim>\<open>sortedData\<close> after the first loop, and the entries of the canonical
  order that may create a property: the name \<^verbatim>\<open>__proto__\<close> never does while its setter is
  inherited, and otherwise only from its second occurrence on.
\<close>

definition finalPrototype :: "string list \<Rightarrow> 'v jsval jsobj \<Rightarrow> 'v prototype" where
  "finalPrototype order parsed =
     (if ''__proto__'' \<in> set order
      then prototypeSetter (getProperty parsed ''__proto__'') ObjectPrototype
      else ObjectPrototype)"

definition listedOrder :: "string list \<Rightarrow> 'v jsval jsobj \<Rightarrow> string list" where
  "listedOrder order parsed =
     (if setterInherited (finalPrototype order parsed)
      then filter (\<lambda>p. p \<noteq> ''__proto__'') order
      else remove1 ''__proto__'' order)"

text \<open>The two loops seen as creations only: over \<open>ks\<close>, then over the keys of \<open>parsed\<close>
  that \<open>visible\<close> does not hide.\<close>

definition normalForm ::
  "string list \<Rightarrow> (string \<Rightarrow> bool) \<Rightarrow> 'v jsval jsobj \<Rightarrow> 'v jsval jsobj" where
  "normalForm ks visible parsed =
     addNew (\<lambda>k. \<not> visible k) (getProperty parsed)
       (addNew (hasProperty parsed) (getProperty parsed) [] ks) (ownKeys parsed)"


section \<open>The order check\<close>

lemma indexOf_ge: "- 1 \<le> indexOf xs x"
  by (induction xs) (auto simp: Let_def)

lemma indexOf_absent: "(indexOf xs x = - 1) = (x \<notin> set xs)"
proof (induction xs)
  case Nil
  show ?case by simp
next
  case (Cons y ys)
  have "- 1 \<le> indexOf ys x" by (rule indexOf_ge)
  with Cons show ?case by (auto simp: Let_def)
qed

text \<open>For a listed key, \<open>indexOf\<close> is its first position in the list.\<close>

lemma indexOf_position:
  "x \<in> set xs \<Longrightarrow>
     0 \<le> indexOf xs x \<and> nat (indexOf xs x) < length xs \<and> xs ! nat (indexOf xs x) = x
     \<and> (\<forall>j < nat (indexOf xs x). xs ! j \<noteq> x)"
proof (induction xs)
  case Nil
  then show ?case by simp
next
  case (Cons y ys)
  show ?case
  proof (cases "y = x")
    case True
    then show ?thesis by simp
  next
    case False
    with Cons.prems have mem: "x \<in> set ys" by simp
    from Cons.IH [OF mem] have ih:
      "0 \<le> indexOf ys x" "nat (indexOf ys x) < length ys" "ys ! nat (indexOf ys x) = x"
      "\<forall>j < nat (indexOf ys x). ys ! j \<noteq> x" by auto
    from ih(1) have ne: "indexOf ys x \<noteq> - 1" by simp
    from ih(1) have suc: "nat (indexOf ys x + 1) = Suc (nat (indexOf ys x))" by simp
    have "\<forall>j < Suc (nat (indexOf ys x)). (y # ys) ! j \<noteq> x"
    proof (intro allI impI)
      fix j assume "j < Suc (nat (indexOf ys x))"
      then show "(y # ys) ! j \<noteq> x" using False ih(4) by (cases j) auto
    qed
    with False ne ih suc show ?thesis by (simp add: Let_def)
  qed
qed

lemma isInCorrectOrder_iff:
  "isInCorrectOrder order ks =
     (\<forall>i. Suc i < length ks \<longrightarrow> ks ! i \<in> set order \<longrightarrow> ks ! Suc i \<in> set order
          \<longrightarrow> indexOf order (ks ! i) < indexOf order (ks ! Suc i))"
proof
  assume ok: "isInCorrectOrder order ks"
  show "\<forall>i. Suc i < length ks \<longrightarrow> ks ! i \<in> set order \<longrightarrow> ks ! Suc i \<in> set order
          \<longrightarrow> indexOf order (ks ! i) < indexOf order (ks ! Suc i)"
  proof (intro allI impI)
    fix i
    assume i: "Suc i < length ks" and a: "ks ! i \<in> set order" and b: "ks ! Suc i \<in> set order"
    from ok i have "orderCallback order ks (Suc i)"
      by (simp add: isInCorrectOrder_def list_all_iff)
    moreover from a have "indexOf order (ks ! i) \<noteq> - 1" by (simp add: indexOf_absent)
    moreover from b have "indexOf order (ks ! Suc i) \<noteq> - 1" by (simp add: indexOf_absent)
    ultimately show "indexOf order (ks ! i) < indexOf order (ks ! Suc i)"
      by (simp add: orderCallback_def Let_def)
  qed
next
  assume r: "\<forall>i. Suc i < length ks \<longrightarrow> ks ! i \<in> set order \<longrightarrow> ks ! Suc i \<in> set order
          \<longrightarrow> indexOf order (ks ! i) < indexOf order (ks ! Suc i)"
  have "orderCallback order ks n" if n: "n < length ks" for n
  proof (cases n)
    case 0
    then show ?thesis by (simp add: orderCallback_def)
  next
    case (Suc i)
    with n r show ?thesis
      by (auto simp: orderCallback_def Let_def indexOf_absent)
  qed
  then show "isInCorrectOrder order ks"
    by (simp add: isInCorrectOrder_def list_all_iff)
qed

lemma isInCorrectOrder_short: "length ks \<le> 1 \<Longrightarrow> isInCorrectOrder order ks"
  by (simp add: isInCorrectOrder_iff)

lemma isInCorrectOrder_canonical:
  assumes "sorted_wrt (\<lambda>a b. indexOf order a < indexOf order b) ks"
  shows "isInCorrectOrder order ks"
  unfolding isInCorrectOrder_iff
proof (intro allI impI)
  fix i assume "Suc i < length ks"
  with assms show "indexOf order (ks ! i) < indexOf order (ks ! Suc i)"
    by (simp add: sorted_wrt_iff_nth_less)
qed

lemma lintZennFrontmatter_wrongOrder:
  "lintZennFrontmatter config path (Some data) = Some r \<Longrightarrow>
     wrongOrder r = (\<not> isInCorrectOrder (propertyOrder config) (ownKeys data))"
  by (auto simp: lintZennFrontmatter_def Let_def split: option.splits if_splits)

lemma lintMdxFrontmatter_wrongOrder:
  "lintMdxFrontmatter config path (Some data) = Some r \<Longrightarrow>
     wrongOrder r = (\<not> isInCorrectOrder (propertyOrder config) (ownKeys data))"
  by (auto simp: lintMdxFrontmatter_def Let_def split: option.splits)

lemma getContentTypeLoop_label:
  "getContentTypeLoop patterns path = ''default''
   \<or> getContentTypeLoop patterns path \<in> fst ` set patterns"
  by (induction patterns path rule: getContentTypeLoop.induct) auto

lemma default_not_inherited: "''default'' \<notin> set objectPrototypeKeys"
  by (simp add: objectPrototypeKeys_def)

lemma requiredPropsFor_label:
  assumes "fst ` set (contentTypePatterns config) \<inter> set objectPrototypeKeys = {}"
  shows "requiredPropsFor config (getContentTypeLoop (contentTypePatterns config) path) \<noteq> None"
proof -
  from getContentTypeLoop_label [of "contentTypePatterns config" path] assms
  have "getContentTypeLoop (contentTypePatterns config) path \<notin> set objectPrototypeKeys"
    using default_not_inherited by auto
  then show ?thesis by (simp add: requiredPropsFor_def split: option.splits)
qed

text \<open>Both validators answer with a result once the required keys of the label are read.\<close>

lemma lintZennFrontmatter_returns:
  "requiredPropsFor config (getContentType config path) \<noteq> None \<Longrightarrow>
     \<exists>r. lintZennFrontmatter config path (Some data) = Some r"
  by (auto simp: lintZennFrontmatter_def Let_def split: option.splits)

lemma lintMdxFrontmatter_returns:
  "requiredPropsFor config (getContentTypeMdx config path) \<noteq> None \<Longrightarrow>
     \<exists>r. lintMdxFrontmatter config path (Some data) = Some r"
  by (auto simp: lintMdxFrontmatter_def Let_def split: option.splits)

lemma lint_returns:
  assumes "fst ` set (contentTypePatterns config) \<inter> set objectPrototypeKeys = {}"
  shows "\<exists>r. lintZennFrontmatter config path (Some data) = Some r"
    and "\<exists>r. lintMdxFrontmatter config path (Some data) = Some r"
proof -
  show "\<exists>r. lintZennFrontmatter config path (Some data) = Some r"
    by (rule lintZennFrontmatter_returns)
       (simp add: getContentType_def requiredPropsFor_label [OF assms])
  show "\<exists>r. lintMdxFrontmatter config path (Some data) = Some r"
    by (rule lintMdxFrontmatter_returns)
       (simp add: getContentTypeMdx_def requiredPropsFor_label [OF assms])
qed

lemma wrongOrder_conditions:
  assumes w: "wrongOrder r = (\<not> isInCorrectOrder (propertyOrder config) (ownKeys data))"
  shows "((wrongOrder r = False) =
            (\<forall>i. Suc i < length (ownKeys data)
                 \<longrightarrow> ownKeys data ! i \<in> set (propertyOrder config)
                 \<longrightarrow> ownKeys data ! Suc i \<in> set (propertyOrder config)
                 \<longrightarrow> indexOf (propertyOrder config) (ownKeys data ! i)
                       < indexOf (propertyOrder config) (ownKeys data ! Suc i)))
         \<and> (length (ownKeys data) \<le> 1 \<longrightarrow> wrongOrder r = False)
         \<and> (set (ownKeys data) \<subseteq> set (propertyOrder config)
              \<and> sorted_wrt (\<lambda>a b. indexOf (propertyOrder config) a
                                    < indexOf (propertyOrder config) b) (ownKeys data)
              \<longrightarrow> wrongOrder r = False)"
proof -
  have a0: "(wrongOrder r = False) = isInCorrectOrder (propertyOrder config) (ownKeys data)"
    by (simp add: w)
  have a: "(wrongOrder r = False) =
            (\<forall>i. Suc i < length (ownKeys data)
                 \<longrightarrow> ownKeys data ! i \<in> set (propertyOrder config)
                 \<longrightarrow> ownKeys data ! Suc i \<in> set (propertyOrder config)
                 \<longrightarrow> indexOf (propertyOrder config) (ownKeys data ! i)
                       < indexOf (propertyOrder config) (ownKeys data ! Suc i))"
    by (rule trans [OF a0 isInCorrectOrder_iff])
  have b: "length (ownKeys data) \<le> 1 \<longrightarrow> wrongOrder r = False"
    by (simp add: w isInCorrectOrder_short)
  have c: "set (ownKeys data) \<subseteq> set (propertyOrder config)
              \<and> sorted_wrt (\<lambda>a b. indexOf (propertyOrder config) a
                                    < indexOf (propertyOrder config) b) (ownKeys data)
              \<longrightarrow> wrongOrder r = False"
    by (simp add: w isInCorrectOrder_canonical)
  from a b c show ?thesis by blast
qed

text \<open>
  Claim C1. For a parsed metadata mapping \<open>data\<close> the Zenn validator and the MDX validator
  each return a result, as soon as the required keys of the content type are read without
  an exception; they are for every path when no content type label of the configuration is a
  name of \<^verbatim>\<open>Object.prototype\<close>, so under the default configuration. In every
  result \<open>r\<close> that either validator returns, \<open>wrongOrder r\<close> is false exactly when every
  consecutive pair of observed keys that are both listed in the canonical order has the
  first key at a strictly smaller position than the second (pairs with an unlisted key are
  exempt). A sequence of at most one key is in order, and so is every sequence of listed
  keys whose positions in the canonical order increase.
\<close>

theorem C1_order_check:
  "(requiredPropsFor config (getContentType config path) \<noteq> None \<longrightarrow>
      (\<exists>r. lintZennFrontmatter config path (Some data) = Some r))
   \<and> (requiredPropsFor config (getContentTypeMdx config path) \<noteq> None \<longrightarrow>
      (\<exists>r. lintMdxFrontmatter config path (Some data) = Some r))
   \<and> (fst ` set (contentTypePatterns config) \<inter> set objectPrototypeKeys = {} \<longrightarrow>
      (\<exists>r. lintZennFrontmatter config path (Some data) = Some r)
      \<and> (\<exists>r. lintMdxFrontmatter config path (Some data) = Some r))
   \<and> (\<forall>r. lintZennFrontmatter config path (Some data) = Some r
            \<or> lintMdxFrontmatter config path (Some data) = Some r \<longrightarrow>
        ((wrongOrder r = False) =
            (\<forall>i. Suc i < length (ownKeys data)
                 \<longrightarrow> ownKeys data ! i \<in> set (propertyOrder config)
                 \<longrightarrow> ownKeys data ! Suc i \<in> set (propertyOrder config)
                 \<longrightarrow> indexOf (propertyOrder config) (ownKeys data ! i)
                       < indexOf (propertyOrder config) (ownKeys data ! Suc i)))
         \<and> (length (ownKeys data) \<le> 1 \<longrightarrow> wrongOrder r = False)
         \<and> (set (ownKeys data) \<subseteq> set (propertyOrder config)
              \<and> sorted_wrt (\<lambda>a b. indexOf (propertyOrder config) a
                                    < indexOf (propertyOrder config) b) (ownKeys data)
              \<longrightarrow> wrongOrder r = False))"
proof (intro conjI impI allI)
  assume "requiredPropsFor config (getContentType config path) \<noteq> None"
  then show "\<exists>r. lintZennFrontmatter config path (Some data) = Some r"
    by (rule lintZennFrontmatter_returns)
next
  assume "requiredPropsFor config (getContentTypeMdx config path) \<noteq> None"
  then show "\<exists>r. lintMdxFrontmatter config path (Some data) = Some r"
    by (rule lintMdxFrontmatter_returns)
next
  assume "fst ` set (contentTypePatterns config) \<inter> set objectPrototypeKeys = {}"
  then show "\<exists>r. lintZennFrontmatter config path (Some data) = Some r"
    by (rule lint_returns(1))
next
  assume "fst ` set (contentTypePatterns config) \<inter> set objectPrototypeKeys = {}"
  then show "\<exists>r. lintMdxFrontmatter config path (Some data) = Some r"
    by (rule lint_returns(2))
next
  fix r
  assume "lintZennFrontmatter config path (Some data) = Some r
            \<or> lintMdxFrontmatter config path (Some data) = Some r"
  then have w: "wrongOrder r = (\<not> isInCorrectOrder (propertyOrder config) (ownKeys data))"
    using lintZennFrontmatter_wrongOrder lintMdxFrontmatter_wrongOrder by blast
  note c = wrongOrder_conditions [OF w]
  from c show "(wrongOrder r = False) =
            (\<forall>i. Suc i < length (ownKeys data)
                 \<longrightarrow> ownKeys data ! i \<in> set (propertyOrder config)
                 \<longrightarrow> ownKeys data ! Suc i \<in> set (propertyOrder config)
                 \<longrightarrow> indexOf (propertyOrder config) (ownKeys data ! i)
                       < indexOf (propertyOrder config) (ownKeys data ! Suc i))"
    by (rule conjunct1)
  from c show "length (ownKeys data) \<le> 1 \<Longrightarrow> wrongOrder r = False" by blast
  from c show "set (ownKeys data) \<subseteq> set (propertyOrder config)
              \<and> sorted_wrt (\<lambda>a b. indexOf (propertyOrder config) a
                                    < indexOf (propertyOrder config) b) (ownKeys data)
              \<Longrightarrow> wrongOrder r = False" by blast
qed

lemmas lint_defs = lintZennFrontmatter_def lintMdxFrontmatter_def DEFAULT_CONFIG_def
  getContentType_def getContentTypeMdx_def requiredPropsFor_def hasProperty_def ownKeys_def
  objectPrototypeKeys_def isInCorrectOrder_def orderCallback_def extractSlugFromPath_def
  basename_def extname_def lastComponent_def isValidSlug_def isSlugChar_def Let_def

text \<open>
  The article \<^verbatim>\<open>articles/how-to-use-it.md\<close> with the keys \<open>title, type\<close>: both are listed
  and in canonical order, so the Zenn validator answers \<open>wrongOrder = False\<close>. The page
  \<^verbatim>\<open>content/blog/page.mdx\<close> with the keys \<open>date, title\<close>, under the default configuration of
  the MDX linter: the MDX validator answers, and with \<open>wrongOrder = True\<close>, the pair being
  out of order.
\<close>

theorem C1_order_check_witness:
  "lintZennFrontmatter DEFAULT_CONFIG ''articles/how-to-use-it.md''
       (Some [(''title'', ''T''), (''type'', ''tech'')])
     = Some \<lparr> filePath = ''articles/how-to-use-it.md'', contentType = ''article'',
               missing = [''emoji'', ''topics'', ''published''], wrongOrder = False,
               currentOrder = [''title'', ''type''], invalidSlug = False, slugError = None \<rparr>
   \<and> wrongOrder \<lparr> filePath = ''articles/how-to-use-it.md'', contentType = ''article'',
               missing = [''emoji'', ''topics'', ''published''], wrongOrder = False,
               currentOrder = [''title'', ''type''], invalidSlug = False, slugError = None \<rparr>
       = False
   \<and> lintMdxFrontmatter DEFAULT_CONFIG_MDX ''content/blog/page.mdx''
       (Some [(''date'', ''2024-01-01''), (''title'', ''T'')]) \<noteq> None
   \<and> wrongOrder (the (lintMdxFrontmatter DEFAULT_CONFIG_MDX ''content/blog/page.mdx''
       (Some [(''date'', ''2024-01-01''), (''title'', ''T'')]))) = True"
proof -
  let ?data = "[(''title'', ''T''), (''type'', ''tech'')] :: string jsobj"
  let ?r = "\<lparr> filePath = ''articles/how-to-use-it.md'', contentType = ''article'',
               missing = [''emoji'', ''topics'', ''published''], wrongOrder = False,
               currentOrder = [''title'', ''type''], invalidSlug = False, slugError = None \<rparr>"
  have h: "lintZennFrontmatter DEFAULT_CONFIG ''articles/how-to-use-it.md'' (Some ?data) = Some ?r"
    by (simp add: lint_defs)
  have pre: "set (ownKeys ?data) \<subseteq> set (propertyOrder DEFAULT_CONFIG)
             \<and> sorted_wrt (\<lambda>a b. indexOf (propertyOrder DEFAULT_CONFIG) a
                                   < indexOf (propertyOrder DEFAULT_CONFIG) b) (ownKeys ?data)"
    by (simp add: ownKeys_def DEFAULT_CONFIG_def)
  note z = C1_order_check [of DEFAULT_CONFIG "''articles/how-to-use-it.md''" ?data,
      THEN conjunct2, THEN conjunct2, THEN conjunct2, THEN spec, THEN mp, OF disjI1 [OF h]]
  have a: "wrongOrder ?r = False"
    by (rule z [THEN conjunct2, THEN conjunct2, THEN mp, OF pre])
  let ?page = "[(''date'', ''2024-01-01''), (''title'', ''T'')] :: string jsobj"
  let ?mdx = "lintMdxFrontmatter DEFAULT_CONFIG_MDX ''content/blog/page.mdx'' (Some ?page)"
  have labels:
    "fst ` set (contentTypePatterns DEFAULT_CONFIG_MDX) \<inter> set objectPrototypeKeys = {}"
    by (simp add: DEFAULT_CONFIG_MDX_def objectPrototypeKeys_def)
  note t = C1_order_check [of DEFAULT_CONFIG_MDX "''content/blog/page.mdx''" ?page]
  from t [THEN conjunct2, THEN conjunct2, THEN conjunct1, THEN mp, OF labels]
  obtain r where r: "?mdx = Some r" by blast
  then have b: "?mdx \<noteq> None" by simp
  note m = t [THEN conjunct2, THEN conjunct2, THEN conjunct2, THEN spec, THEN mp,
      OF disjI2 [OF r], THEN conjunct1]
  have "\<not> (\<forall>i. Suc i < length (ownKeys ?page)
                 \<longrightarrow> ownKeys ?page ! i \<in> set (propertyOrder DEFAULT_CONFIG_MDX)
                 \<longrightarrow> ownKeys ?page ! Suc i \<in> set (propertyOrder DEFAULT_CONFIG_MDX)
                 \<longrightarrow> indexOf (propertyOrder DEFAULT_CONFIG_MDX) (ownKeys ?page ! i)
                       < indexOf (propertyOrder DEFAULT_CONFIG_MDX) (ownKeys ?page ! Suc i))"
    by (simp add: ownKeys_def DEFAULT_CONFIG_MDX_def)
  with m have "wrongOrder r \<noteq> False" by blast
  then have c: "wrongOrder (the ?mdx) = True" by (simp add: r)
  from h a b c show ?thesis by (intro conjI)
qed

section \<open>The slug check\<close>

lemma lower_chars: "map char_of [97..<123::nat] = ''abcdefghijklmnopqrstuvwxyz''"
  by code_simp

lemma digit_chars: "map char_of [48..<58::nat] = ''0123456789''"
  by code_simp

lemma char_range:
  assumes "hi \<le> 256"
  shows "(c \<in> set (map char_of [lo..<hi]))
           = (lo \<le> (of_char c :: nat) \<and> (of_char c :: nat) < hi)"
proof
  assume "c \<in> set (map char_of [lo..<hi])"
  then obtain n where n: "lo \<le> n" "n < hi" "c = char_of n" by auto
  with assms have "n mod 256 = n" by simp
  with n show "lo \<le> (of_char c :: nat) \<and> (of_char c :: nat) < hi" by simp
next
  assume h: "lo \<le> (of_char c :: nat) \<and> (of_char c :: nat) < hi"
  have "c = char_of (of_char c :: nat)" by simp
  with h show "c \<in> set (map char_of [lo..<hi])"
    by (metis (no_types, lifting) atLeastLessThan_iff image_eqI list.set_map set_upt)
qed

lemma isSlugChar_iff:
  "isSlugChar c = (c \<in> set (''abcdefghijklmnopqrstuvwxyz'' @ ''0123456789'' @ ''_-''))"
proof -
  have a: "(c \<in> set ''abcdefghijklmnopqrstuvwxyz'')
             = (97 \<le> (of_char c :: nat) \<and> (of_char c :: nat) \<le> 122)"
    unfolding lower_chars [symmetric] by (subst char_range) auto
  have d: "(c \<in> set ''0123456789'')
             = (48 \<le> (of_char c :: nat) \<and> (of_char c :: nat) \<le> 57)"
    unfolding digit_chars [symmetric] by (subst char_range) auto
  show ?thesis
    unfolding isSlugChar_def set_append Un_iff a d by auto
qed

lemma isValidSlug_iff:
  "isValidSlug s =
     (set s \<subseteq> set ''abcdefghijklmnopqrstuvwxyz0123456789_-''
      \<and> 12 \<le> length s \<and> length s \<le> 50)"
proof -
  have e: "''abcdefghijklmnopqrstuvwxyz'' @ ''0123456789'' @ ''_-''
             = ''abcdefghijklmnopqrstuvwxyz0123456789_-''"
    by simp
  have h: "list_all isSlugChar s
             = (set s \<subseteq> set ''abcdefghijklmnopqrstuvwxyz0123456789_-'')"
    unfolding list_all_iff isSlugChar_iff e subset_eq by (rule refl)
  show ?thesis unfolding isValidSlug_def h by (rule refl)
qed

lemma takeWhile_stop:
  "\<forall>x\<in>set xs. P x \<Longrightarrow> \<not> P y \<Longrightarrow> takeWhile P (xs @ y # ys) = xs"
  by (induction xs) auto

text \<open>The last component of a path that ends in a slash-free, non-empty name.\<close>

lemma lastComponent_append:
  assumes "CHR ''/'' \<notin> set nm" "nm \<noteq> []" "d = [] \<or> last d = CHR ''/''"
  shows "lastComponent (d @ nm) = nm"
proof -
  from assms(2) obtain z zs where r: "rev nm = z # zs" by (cases "rev nm") auto
  have "z \<in> set nm" using r by (metis list.set_intros(1) set_rev)
  with assms(1) have z: "z \<noteq> CHR ''/''" by auto
  have nos: "\<forall>x\<in>set (rev nm). x \<noteq> CHR ''/''" using assms(1) by auto
  have dw: "dropWhile (\<lambda>c. c = CHR ''/'') (rev nm @ rev d) = rev nm @ rev d"
    using r z by simp
  have tw: "takeWhile (\<lambda>c. c \<noteq> CHR ''/'') (rev nm @ rev d) = rev nm"
  proof (cases "d = []")
    case True
    then show ?thesis using nos by simp
  next
    case False
    with assms(3) have "hd (rev d) = CHR ''/''" by (simp add: hd_rev)
    moreover from False have "rev d \<noteq> []" by simp
    ultimately obtain ds where "rev d = CHR ''/'' # ds" by (cases "rev d") auto
    then show ?thesis using nos by (simp add: takeWhile_stop)
  qed
  show ?thesis by (simp add: lastComponent_def dw tw)
qed

lemma extname_name_ext:
  assumes "lastComponent p = name @ CHR ''.'' # ext" "CHR ''.'' \<notin> set ext" "name \<noteq> []"
    "\<not> (name = ''.'' \<and> ext = [])"
  shows "extname p = CHR ''.'' # ext"
proof -
  let ?nm = "name @ CHR ''.'' # ext"
  have tw: "takeWhile (\<lambda>c. c \<noteq> CHR ''.'') (rev ?nm) = rev ext"
  proof -
    have nod: "\<forall>x\<in>set (rev ext). x \<noteq> CHR ''.''" using assms(2) by auto
    show ?thesis
      using takeWhile_stop [of "rev ext" "\<lambda>c. c \<noteq> CHR ''.''" "CHR ''.''" "rev name"] nod
      by simp
  qed
  have sd: "length ?nm - length (rev (rev ext)) - 1 = length name" by simp
  have nz: "length name \<noteq> 0" using assms(3) by simp
  have nd: "?nm \<noteq> ''..''"
  proof
    assume e: "?nm = ''..''"
    then have "length ?nm = 2" by simp
    then have l: "length name + length ext = 1" by simp
    with assms(3) have x: "ext = []" by (cases name) auto
    with l obtain c where n: "name = [c]" by (cases name) auto
    with e x have "c = CHR ''.''" by simp
    with n x assms(4) show False by simp
  qed
  show ?thesis
    unfolding extname_def assms(1) Let_def tw sd using nz nd by simp
qed

text \<open>
  The slug of \<^verbatim>\<open>dir/name.ext\<close> is \<open>name\<close>: the base name without the extension, which is
  what follows the last dot.
\<close>

lemma extractSlugFromPath_name_ext:
  assumes "CHR ''/'' \<notin> set name" "CHR ''/'' \<notin> set ext" "CHR ''.'' \<notin> set ext"
    "name \<noteq> []" "\<not> (name = ''.'' \<and> ext = [])" "d = [] \<or> last d = CHR ''/''"
  shows "extractSlugFromPath (d @ name @ CHR ''.'' # ext) = name"
proof -
  let ?nm = "name @ CHR ''.'' # ext"
  let ?p = "d @ ?nm"
  have lc: "lastComponent ?p = ?nm"
    using assms(1,2,6) by (intro lastComponent_append) auto
  have ex: "extname ?p = CHR ''.'' # ext"
    using lc assms(3,4,5) by (rule extname_name_ext)
  have ne: "CHR ''.'' # ext \<noteq> ?p"
  proof
    assume "CHR ''.'' # ext = ?p"
    then have "length (CHR ''.'' # ext) = length ?p" by simp
    with assms(4) show False by simp
  qed
  show ?thesis
    unfolding extractSlugFromPath_def ex basename_def lc Let_def
    using ne assms(4) by simp
qed

lemma lintZennFrontmatter_invalidSlug:
  "lintZennFrontmatter config path (Some data) = Some r \<Longrightarrow>
     invalidSlug r = (getContentType config path = ''article''
                      \<and> \<not> isValidSlug (extractSlugFromPath path))"
  by (auto simp: lintZennFrontmatter_def Let_def split: option.splits if_splits)

lemma lintZennFrontmatter_contentType:
  "lintZennFrontmatter config path (Some data) = Some r \<Longrightarrow>
     contentType r = getContentType config path"
  by (auto simp: lintZennFrontmatter_def Let_def split: option.splits if_splits)

text \<open>
  Claim C6. The slug validator accepts exactly the strings made of the characters
  \<^verbatim>\<open>a-z\<close>, \<^verbatim>\<open>0-9\<close>, \<^verbatim>\<open>_\<close>, \<^verbatim>\<open>-\<close> whose length is from 12 to 50; the whole string
  must match. \<^verbatim>\<open>how-to-use-it\<close> is accepted, \<^verbatim>\<open>bad\<close> and \<^verbatim>\<open>Has-Upper-Case-12\<close> are
  not. The slug the validator tests is the base name of the file without its extension
  (for \<^verbatim>\<open>dir/name.ext\<close> it is \<open>name\<close>), and a result carries the invalid-slug flag exactly
  when the content type is \<open>article\<close> and that slug is rejected.
\<close>

theorem C6_slug_validator:
  "(isValidSlug s =
      (set s \<subseteq> set ''abcdefghijklmnopqrstuvwxyz0123456789_-''
       \<and> 12 \<le> length s \<and> length s \<le> 50))
   \<and> isValidSlug ''how-to-use-it'' \<and> length ''how-to-use-it'' = 13
   \<and> \<not> isValidSlug ''bad'' \<and> \<not> isValidSlug ''Has-Upper-Case-12''
   \<and> (CHR ''/'' \<notin> set name \<and> CHR ''/'' \<notin> set ext \<and> CHR ''.'' \<notin> set ext
        \<and> name \<noteq> [] \<and> \<not> (name = ''.'' \<and> ext = [])
      \<longrightarrow> extractSlugFromPath (folder @ ''/'' @ name @ ''.'' @ ext) = name)
   \<and> (lintZennFrontmatter config path (Some data) = Some r
      \<longrightarrow> invalidSlug r = (contentType r = ''article''
                             \<and> \<not> isValidSlug (extractSlugFromPath path)))"
proof -
  have a: "isValidSlug s =
      (set s \<subseteq> set ''abcdefghijklmnopqrstuvwxyz0123456789_-''
       \<and> 12 \<le> length s \<and> length s \<le> 50)"
    by (rule isValidSlug_iff)
  have b: "isValidSlug ''how-to-use-it''" "length ''how-to-use-it'' = 13"
    "\<not> isValidSlug ''bad''" "\<not> isValidSlug ''Has-Upper-Case-12''"
    by (simp_all add: isValidSlug_def isSlugChar_def)
  have c: "CHR ''/'' \<notin> set name \<and> CHR ''/'' \<notin> set ext \<and> CHR ''.'' \<notin> set ext
        \<and> name \<noteq> [] \<and> \<not> (name = ''.'' \<and> ext = [])
      \<longrightarrow> extractSlugFromPath (folder @ ''/'' @ name @ ''.'' @ ext) = name"
  proof
    assume h: "CHR ''/'' \<notin> set name \<and> CHR ''/'' \<notin> set ext \<and> CHR ''.'' \<notin> set ext
        \<and> name \<noteq> [] \<and> \<not> (name = ''.'' \<and> ext = [])"
    have "extractSlugFromPath ((folder @ ''/'') @ name @ CHR ''.'' # ext) = name"
      using h by (intro extractSlugFromPath_name_ext) auto
    then show "extractSlugFromPath (folder @ ''/'' @ name @ ''.'' @ ext) = name" by simp
  qed
  have d: "lintZennFrontmatter config path (Some data) = Some r
      \<longrightarrow> invalidSlug r = (contentType r = ''article''
                             \<and> \<not> isValidSlug (extractSlugFromPath path))"
    using lintZennFrontmatter_invalidSlug lintZennFrontmatter_contentType by metis
  from a b c d show ?thesis by blast
qed

text \<open>
  The article \<^verbatim>\<open>articles/bad.md\<close>: its slug is \<^verbatim>\<open>bad\<close>, three characters, and the result is
  flagged.
\<close>

theorem C6_slug_validator_witness:
  "extractSlugFromPath (''articles'' @ ''/'' @ ''bad'' @ ''.'' @ ''md'') = ''bad''
   \<and> lintZennFrontmatter DEFAULT_CONFIG ''articles/bad.md'' (Some [(''title'', ''T'')])
       = Some \<lparr> filePath = ''articles/bad.md'', contentType = ''article'',
                 missing = [''emoji'', ''type'', ''topics'', ''published''],
                 wrongOrder = False, currentOrder = [''title''],
                 invalidSlug = True, slugError = Some ''bad'' \<rparr>
   \<and> invalidSlug \<lparr> filePath = ''articles/bad.md'', contentType = ''article'',
                 missing = [''emoji'', ''type'', ''topics'', ''published''],
                 wrongOrder = False, currentOrder = [''title''],
                 invalidSlug = True, slugError = Some ''bad'' \<rparr>
       = (contentType \<lparr> filePath = ''articles/bad.md'', contentType = ''article'',
                 missing = [''emoji'', ''type'', ''topics'', ''published''],
                 wrongOrder = False, currentOrder = [''title''],
                 invalidSlug = True, slugError = Some ''bad'' \<rparr> = ''article''
          \<and> \<not> isValidSlug (extractSlugFromPath ''articles/bad.md''))"
proof -
  let ?data = "[(''title'', ''T'')] :: string jsobj"
  let ?r = "\<lparr> filePath = ''articles/bad.md'', contentType = ''article'',
                 missing = [''emoji'', ''type'', ''topics'', ''published''],
                 wrongOrder = False, currentOrder = [''title''],
                 invalidSlug = True, slugError = Some ''bad'' \<rparr>"
  note inst = C6_slug_validator [of "''bad''" "''bad''" "''md''" "''articles''"
                DEFAULT_CONFIG "''articles/bad.md''" ?data ?r]
  have pre: "CHR ''/'' \<notin> set ''bad'' \<and> CHR ''/'' \<notin> set ''md'' \<and> CHR ''.'' \<notin> set ''md''
        \<and> ''bad'' \<noteq> [] \<and> \<not> (''bad'' = ''.'' \<and> ''md'' = [])" by simp
  have h: "lintZennFrontmatter DEFAULT_CONFIG ''articles/bad.md'' (Some ?data) = Some ?r"
    by (simp add: lint_defs)
  have s: "extractSlugFromPath (''articles'' @ ''/'' @ ''bad'' @ ''.'' @ ''md'') = ''bad''"
    by (rule inst [THEN conjunct2, THEN conjunct2, THEN conjunct2, THEN conjunct2,
                  THEN conjunct2, THEN conjunct1, THEN mp, OF pre])
  have f: "invalidSlug ?r = (contentType ?r = ''article''
                             \<and> \<not> isValidSlug (extractSlugFromPath ''articles/bad.md''))"
    by (rule inst [THEN conjunct2, THEN conjunct2, THEN conjunct2, THEN conjunct2,
                  THEN conjunct2, THEN conjunct2, THEN mp, OF h])
  from s h f show ?thesis by (intro conjI)
qed

section \<open>Aggregation and exit code\<close>

lemma lintFiles_hasErrors:
  "hasErrors (lintFiles fix config files st) =
     (hasErrors st \<or> (\<exists>(path, parsed)\<in>set files. \<exists>r.
          lintZennFrontmatter config path parsed = Some r \<and> documentFlagged r))"
proof (induction files arbitrary: st)
  case Nil
  show ?case by simp
next
  case (Cons f files)
  obtain path parsed where f: "f = (path, parsed)" by (cases f)
  show ?case unfolding f
    by (cases "lintZennFrontmatter config path parsed") (auto simp: Cons.IH)
qed

lemma lintFiles_bookConfigResults:
  "bookConfigResults (lintFiles fix config files st) = bookConfigResults st"
proof (induction files arbitrary: st)
  case Nil
  show ?case by simp
next
  case (Cons f files)
  obtain path parsed where f: "f = (path, parsed)" by (cases f)
  show ?case unfolding f
    by (cases "lintZennFrontmatter config path parsed") (auto simp: Cons.IH)
qed

lemma lintBooks_hasErrors:
  "hasErrors (lintBooks config books st) =
     (hasErrors st \<or> (\<exists>b\<in>set books. bookFlagged (lintBookConfig config b)))"
  by (induction books arbitrary: st) (auto simp: Let_def)

lemma lintBooks_bookConfigResults:
  "bookConfigResults (lintBooks config books st) =
     bookConfigResults st @ filter bookFlagged (map (lintBookConfig config) books)"
  by (induction books arbitrary: st) (auto simp: Let_def)

lemma lintBooks_scripts_bookConfigResults:
  "bookConfigResults (lintBooks_scripts config books st) =
     bookConfigResults st
     @ filter bookFlagged_scripts (map (lintBookConfig_scripts config) books)"
  by (induction books arbitrary: st) (auto simp: Let_def)

lemma runState_hasErrors:
  "hasErrors (runState fix config files books) =
     ((\<exists>(path, parsed)\<in>set files. \<exists>r.
          lintZennFrontmatter config path parsed = Some r \<and> documentFlagged r)
      \<or> (\<exists>b\<in>set books. bookFlagged (lintBookConfig config b)))"
  by (simp add: runState_def lintBooks_hasErrors lintFiles_hasErrors initialState_def)

lemma runState_bookConfigResults:
  "bookConfigResults (runState fix config files books) =
     filter bookFlagged (map (lintBookConfig config) books)"
  by (simp add: runState_def lintBooks_bookConfigResults lintFiles_bookConfigResults
      initialState_def)

lemma exitCode_runMainWithoutExit:
  "exitCode (runMainWithoutExit fix config files books) =
     (if hasErrors (runState fix config files books) \<and> \<not> fix then 1 else 0)"
proof (cases "files = [] \<and> books = []")
  case True
  then have e: "files = []" "books = []" by simp_all
  show ?thesis unfolding e
    by (simp add: runMainWithoutExit_def runState_def initialState_def)
next
  case False
  then have n: "\<not> (length files = 0 \<and> length books = 0)" by simp
  show ?thesis
    unfolding runMainWithoutExit_def Let_def if_not_P [OF n] by (simp only: run_result.simps)
qed

text \<open>
  Claim C8. After the two loops of a run, \<open>hasErrors\<close> holds exactly when some linted
  document has a result with a non-empty missing list, a wrong order or an invalid slug, or
  some book has a result with a missing manifest file, a non-empty missing list, invalid
  chapters or a duplicate chapter slug. It is the same for any two runs over the same files
  and the same books, whatever their order. The exit code is 1 when \<open>hasErrors\<close> holds
  and \<^verbatim>\<open>--fix\<close> was not given, and 0 otherwise.
\<close>

theorem C8_erroring_and_exit_code:
  "(hasErrors (runState fix config files books) =
      ((\<exists>(path, parsed)\<in>set files. \<exists>r.
           lintZennFrontmatter config path parsed = Some r
           \<and> (LintResult.missing r \<noteq> [] \<or> wrongOrder r \<or> invalidSlug r))
       \<or> (\<exists>b\<in>set books.
             missingConfigFile (lintBookConfig config b)
             \<or> BookConfigLintResult.missing (lintBookConfig config b) \<noteq> []
             \<or> invalidChapters (lintBookConfig config b)
             \<or> duplicateChapterSlug (lintBookConfig config b))))
   \<and> (set files' = set files \<and> set books' = set books
        \<longrightarrow> hasErrors (runState fix config files' books')
              = hasErrors (runState fix config files books))
   \<and> ((exitCode (runMainWithoutExit fix config files books) \<noteq> 0)
        = (hasErrors (runState fix config files books) \<and> \<not> fix))
   \<and> exitCode (runMainWithoutExit fix config files books)
        = (if hasErrors (runState fix config files books) \<and> \<not> fix then 1 else 0)"
proof -
  have a: "hasErrors (runState fix config files books) =
      ((\<exists>(path, parsed)\<in>set files. \<exists>r.
           lintZennFrontmatter config path parsed = Some r
           \<and> (LintResult.missing r \<noteq> [] \<or> wrongOrder r \<or> invalidSlug r))
       \<or> (\<exists>b\<in>set books.
             missingConfigFile (lintBookConfig config b)
             \<or> BookConfigLintResult.missing (lintBookConfig config b) \<noteq> []
             \<or> invalidChapters (lintBookConfig config b)
             \<or> duplicateChapterSlug (lintBookConfig config b)))"
    unfolding runState_hasErrors documentFlagged_def bookFlagged_def by auto
  have b: "set files' = set files \<and> set books' = set books
        \<longrightarrow> hasErrors (runState fix config files' books')
              = hasErrors (runState fix config files books)"
    by (simp add: runState_hasErrors)
  have c: "exitCode (runMainWithoutExit fix config files books)
        = (if hasErrors (runState fix config files books) \<and> \<not> fix then 1 else 0)"
    by (rule exitCode_runMainWithoutExit)
  have d: "(exitCode (runMainWithoutExit fix config files books) \<noteq> 0)
        = (hasErrors (runState fix config files books) \<and> \<not> fix)"
  proof -
    have "((if H \<and> \<not> fix then (1::nat) else 0) \<noteq> 0) = (H \<and> \<not> fix)" for H
      by simp
    then show ?thesis unfolding c .
  qed
  from a b c d show ?thesis by blast
qed

text \<open>
  Two articles, one with the short slug \<^verbatim>\<open>bad\<close>, linted in either order: the run is
  erroring both times.
\<close>

theorem C8_erroring_and_exit_code_witness:
  "set [(''articles/how-to-use-it.md'', Some [(''title'', ''T'')]),
        (''articles/bad.md'', Some [(''title'', ''T'')])]
     = set [(''articles/bad.md'', Some [(''title'', ''T'')]),
            (''articles/how-to-use-it.md'', Some [(''title'', ''T'')])]
   \<and> hasErrors (runState False DEFAULT_CONFIG
         [(''articles/how-to-use-it.md'', Some [(''title'', ''T'')]),
          (''articles/bad.md'', Some [(''title'', ''T'')])] [])
     = hasErrors (runState False DEFAULT_CONFIG
         [(''articles/bad.md'', Some [(''title'', ''T'')]),
          (''articles/how-to-use-it.md'', Some [(''title'', ''T'')])] [])"
proof -
  let ?f1 = "(''articles/bad.md'', Some ([(''title'', ''T'')] :: string jsobj))"
  let ?f2 = "(''articles/how-to-use-it.md'', Some ([(''title'', ''T'')] :: string jsobj))"
  have pre: "set [?f2, ?f1] = set [?f1, ?f2] \<and> set ([] :: book list) = set []" by auto
  have "hasErrors (runState False DEFAULT_CONFIG [?f2, ?f1] [])
        = hasErrors (runState False DEFAULT_CONFIG [?f1, ?f2] [])"
    by (rule C8_erroring_and_exit_code [of False DEFAULT_CONFIG "[?f1, ?f2]" "[]"
               "[?f2, ?f1]" "[]", THEN conjunct2, THEN conjunct1, THEN mp, OF pre])
  with pre show ?thesis by blast
qed


section \<open>An unparseable manifest\<close>

lemma lintBookConfig_unreadable:
  "manifest b = UnreadableManifest \<or> manifest b = ScalarManifest \<Longrightarrow>
     lintBookConfig config b =
       \<lparr> dir = bookDir b, missing = bookConfigRequiredProperties config,
         missingConfigFile = False, invalidChapters = False, chaptersError = None,
         duplicateChapterSlug = False, duplicateChapterNames = None \<rparr>"
  by (auto simp: lintBookConfig_def initialResult_def catchBlock_def)

lemma lintBookConfig_scripts_unreadable:
  "manifest b = UnreadableManifest \<or> manifest b = ScalarManifest \<Longrightarrow>
     lintBookConfig_scripts config b =
       \<lparr> dir = bookDir b, missing = bookConfigRequiredProperties config,
         missingConfigFile = False, invalidChapters = False, chaptersError = None,
         duplicateChapterSlug = False, duplicateChapterNames = None \<rparr>"
  by (auto simp: lintBookConfig_scripts_def initialResult_def catchBlock_def)

text \<open>
  Claim C7. When reading or parsing the manifest raises (or the parsed value is no object,
  which raises at the first test), both validators return the result whose missing list is
  the whole list of required manifest keys and in which nothing else is set: no further
  check has run. The run goes on: the results it keeps are those of the books before, of
  this book, and of the books after it.
\<close>

theorem C7_unparseable_manifest:
  assumes "manifest b = UnreadableManifest \<or> manifest b = ScalarManifest"
  shows "lintBookConfig config b =
           \<lparr> dir = bookDir b, missing = bookConfigRequiredProperties config,
             missingConfigFile = False, invalidChapters = False, chaptersError = None,
             duplicateChapterSlug = False, duplicateChapterNames = None \<rparr>
         \<and> lintBookConfig_scripts config b = lintBookConfig config b
         \<and> bookConfigResults (runState fix config files (before @ b # after)) =
             filter bookFlagged (map (lintBookConfig config) before)
             @ filter bookFlagged [lintBookConfig config b]
             @ filter bookFlagged (map (lintBookConfig config) after)
         \<and> bookConfigResults
               (lintBooks_scripts config (before @ b # after)
                   (lintFiles fix config files initialState)) =
             filter bookFlagged_scripts (map (lintBookConfig_scripts config) before)
             @ filter bookFlagged_scripts [lintBookConfig_scripts config b]
             @ filter bookFlagged_scripts (map (lintBookConfig_scripts config) after)"
proof -
  have a: "lintBookConfig config b =
           \<lparr> dir = bookDir b, missing = bookConfigRequiredProperties config,
             missingConfigFile = False, invalidChapters = False, chaptersError = None,
             duplicateChapterSlug = False, duplicateChapterNames = None \<rparr>"
    using assms by (rule lintBookConfig_unreadable)
  have b: "lintBookConfig_scripts config b = lintBookConfig config b"
    using assms by (simp add: lintBookConfig_unreadable lintBookConfig_scripts_unreadable)
  have c: "bookConfigResults (runState fix config files (before @ b # after)) =
             filter bookFlagged (map (lintBookConfig config) before)
             @ filter bookFlagged [lintBookConfig config b]
             @ filter bookFlagged (map (lintBookConfig config) after)"
    by (simp add: runState_bookConfigResults)
  have d: "bookConfigResults
               (lintBooks_scripts config (before @ b # after)
                   (lintFiles fix config files initialState)) =
             filter bookFlagged_scripts (map (lintBookConfig_scripts config) before)
             @ filter bookFlagged_scripts [lintBookConfig_scripts config b]
             @ filter bookFlagged_scripts (map (lintBookConfig_scripts config) after)"
    by (simp add: lintBooks_scripts_bookConfigResults lintFiles_bookConfigResults
        initialState_def)
  from a b c d show ?thesis by blast
qed

text \<open>A book whose manifest cannot be parsed, under the default configuration: all six
  required keys are reported missing.\<close>

theorem C7_unparseable_manifest_witness:
  "manifest \<lparr> bookDir = ''books/broken'', manifest = UnreadableManifest,
               dirEntries = Some [''config.yaml'', ''1.intro.md''] \<rparr> = UnreadableManifest
   \<and> lintBookConfig DEFAULT_CONFIG
        \<lparr> bookDir = ''books/broken'', manifest = UnreadableManifest,
          dirEntries = Some [''config.yaml'', ''1.intro.md''] \<rparr>
      = \<lparr> dir = ''books/broken'',
          missing = [''title'', ''summary'', ''topics'', ''published'', ''price'', ''chapters''],
          missingConfigFile = False, invalidChapters = False, chaptersError = None,
          duplicateChapterSlug = False, duplicateChapterNames = None \<rparr>"
proof -
  let ?b = "\<lparr> bookDir = ''books/broken'', manifest = UnreadableManifest,
               dirEntries = Some [''config.yaml'', ''1.intro.md''] \<rparr>"
  have pre: "manifest ?b = UnreadableManifest \<or> manifest ?b = ScalarManifest" by simp
  have "lintBookConfig DEFAULT_CONFIG ?b =
           \<lparr> dir = bookDir ?b, missing = bookConfigRequiredProperties DEFAULT_CONFIG,
             missingConfigFile = False, invalidChapters = False, chaptersError = None,
             duplicateChapterSlug = False, duplicateChapterNames = None \<rparr>"
    by (rule C7_unparseable_manifest [OF pre, THEN conjunct1])
  then show ?thesis by (simp add: DEFAULT_CONFIG_def)
qed


section \<open>The book manifest validator\<close>

lemma repeatedEntries_set:
  "set (repeatedEntries xs seen) = {x \<in> set xs. x \<in> seen \<or> 2 \<le> count_list xs x}"
proof (induction xs arbitrary: seen)
  case Nil
  show ?case by simp
next
  case (Cons y ys)
  have pos: "0 < count_list ys x \<longleftrightarrow> x \<in> set ys" for x
    by (simp add: count_list_0_iff zero_less_iff_neq_zero)
  show ?case
  proof (cases "y \<in> seen")
    case True
    then show ?thesis using Cons.IH [of seen] by (auto simp: pos)
  next
    case False
    have "2 \<le> Suc (count_list ys x) \<longleftrightarrow> x \<in> set ys" for x
      using pos [of x] by auto
    then show ?thesis using False Cons.IH [of "insert y seen"] by auto
  qed
qed

lemma repeatedEntries_Nil:
  "(repeatedEntries xs seen = []) = (distinct xs \<and> set xs \<inter> seen = {})"
  by (induction xs arbitrary: seen) auto

lemma numberedDuplicates_eq:
  "numberedDuplicates fs seen acc =
     acc @ repeatedEntries
             (map extractSlugFromNumberedChapter (filter isNumberedChapterFileName fs)) seen"
  by (induction fs arbitrary: seen acc) (auto simp: Let_def)

lemma chapterDuplicates_eq:
  "list_all isDescriptor cs \<Longrightarrow>
     chapterDuplicates cs seen acc =
       Inr (acc @ repeatedEntries (List.map_filter descriptorSlug cs) seen)"
proof (induction cs arbitrary: seen acc)
  case Nil
  show ?case by (simp add: List.map_filter_simps)
next
  case (Cons c cs)
  then have d: "isDescriptor c" and r: "list_all isDescriptor cs" by simp_all
  from d obtain m where c: "c = YMap m" by (cases c) auto
  show ?case
  proof (cases "map_of m ''file''")
    case None
    then show ?thesis using Cons.IH [OF r] c by (simp add: List.map_filter_simps)
  next
    case (Some v)
    with d c obtain f where v: "v = YStr f" by (cases v) auto
    show ?thesis using Cons.IH [OF r] c Some v
      by (simp add: List.map_filter_simps Let_def)
  qed
qed

lemma dropWhile_stop:
  "\<forall>x\<in>set xs. P x \<Longrightarrow> \<not> P y \<Longrightarrow> dropWhile P (xs @ y # ys) = y # ys"
  by (induction xs) auto

lemma not_digit_dot: "\<not> isDigit CHR ''.''"
  by (simp add: isDigit_def)

lemma not_slug_dot: "\<not> isSlugChar CHR ''.''"
  by (simp add: isSlugChar_def)

text \<open>The file names the pattern accepts are exactly \<^verbatim>\<open><digits>.<slug>.md\<close>, and the group is
  the slug.\<close>

lemma matchNumberedChapter_iff:
  "(matchNumberedChapter f = Some sl) =
     (\<exists>ds. ds \<noteq> [] \<and> list_all isDigit ds \<and> sl \<noteq> [] \<and> list_all isSlugChar sl
           \<and> f = ds @ ''.'' @ sl @ ''.md'')"
proof
  assume m: "matchNumberedChapter f = Some sl"
  let ?ds = "takeWhile isDigit f"
  let ?r1 = "dropWhile isDigit f"
  from m have dne: "?ds \<noteq> []"
    by (auto simp: matchNumberedChapter_def Let_def split: if_splits)
  from m dne obtain rest where r1: "?r1 = CHR ''.'' # rest"
    by (auto simp: matchNumberedChapter_def Let_def split: if_splits list.splits)
  from m dne r1 have s: "sl = takeWhile isSlugChar rest" "sl \<noteq> []"
    "dropWhile isSlugChar rest = ''.md''"
    by (auto simp: matchNumberedChapter_def Let_def split: if_splits)
  have "f = ?ds @ ?r1" by simp
  also have "?r1 = CHR ''.'' # (takeWhile isSlugChar rest @ dropWhile isSlugChar rest)"
    using r1 by simp
  finally have f: "f = ?ds @ ''.'' @ sl @ ''.md''" using s by simp
  have "list_all isDigit ?ds" by (simp add: list_all_iff) (meson set_takeWhileD)
  moreover have "list_all isSlugChar sl"
    unfolding s(1) by (simp add: list_all_iff) (meson set_takeWhileD)
  ultimately show "\<exists>ds. ds \<noteq> [] \<and> list_all isDigit ds \<and> sl \<noteq> [] \<and> list_all isSlugChar sl
           \<and> f = ds @ ''.'' @ sl @ ''.md''"
    using dne s(2) f by blast
next
  assume "\<exists>ds. ds \<noteq> [] \<and> list_all isDigit ds \<and> sl \<noteq> [] \<and> list_all isSlugChar sl
           \<and> f = ds @ ''.'' @ sl @ ''.md''"
  then obtain ds where ds: "ds \<noteq> []" "list_all isDigit ds" "sl \<noteq> []" "list_all isSlugChar sl"
    and f: "f = ds @ CHR ''.'' # (sl @ CHR ''.'' # ''md'')" by auto
  have a: "\<forall>x\<in>set ds. isDigit x" using ds(2) by (simp add: list_all_iff)
  have b: "\<forall>x\<in>set sl. isSlugChar x" using ds(4) by (simp add: list_all_iff)
  have t1: "takeWhile isDigit f = ds" unfolding f
    using a not_digit_dot by (rule takeWhile_stop)
  have d1: "dropWhile isDigit f = CHR ''.'' # (sl @ CHR ''.'' # ''md'')" unfolding f
    using a not_digit_dot by (rule dropWhile_stop)
  have t2: "takeWhile isSlugChar (sl @ CHR ''.'' # ''md'') = sl"
    using b not_slug_dot by (rule takeWhile_stop)
  have d2: "dropWhile isSlugChar (sl @ CHR ''.'' # ''md'') = ''.md''"
    using b not_slug_dot by (rule dropWhile_stop)
  show "matchNumberedChapter f = Some sl"
    unfolding matchNumberedChapter_def Let_def t1 d1 using ds(1,3) by (simp add: t2 d2)
qed

lemma extractSlugFromNumberedChapter_numbered:
  "ds \<noteq> [] \<Longrightarrow> list_all isDigit ds \<Longrightarrow> sl \<noteq> [] \<Longrightarrow> list_all isSlugChar sl \<Longrightarrow>
     isNumberedChapterFileName (ds @ ''.'' @ sl @ ''.md'')
     \<and> extractSlugFromNumberedChapter (ds @ ''.'' @ sl @ ''.md'') = sl"
proof -
  assume h: "ds \<noteq> []" "list_all isDigit ds" "sl \<noteq> []" "list_all isSlugChar sl"
  then have "matchNumberedChapter (ds @ ''.'' @ sl @ ''.md'') = Some sl"
    unfolding matchNumberedChapter_iff by blast
  with h(3) show ?thesis
    by (simp add: isNumberedChapterFileName_def extractSlugFromNumberedChapter_def)
qed

lemma length_filter_all: "(length (filter P xs) = length xs) = (\<forall>x\<in>set xs. P x)"
proof (induction xs)
  case Nil
  show ?case by simp
next
  case (Cons x xs)
  have le: "length (filter P xs) \<le> length xs" by simp
  show ?case
  proof (cases "P x")
    case True
    with Cons show ?thesis by simp
  next
    case False
    from le have "length (filter P xs) \<noteq> Suc (length xs)" by arith
    with False show ?thesis by simp
  qed
qed

lemma mixed_condition:
  "(0 < length (filter (\<lambda>f. \<not> P f) xs) \<and> length (filter (\<lambda>f. \<not> P f) xs) \<noteq> length xs)
     = ((\<exists>f\<in>set xs. \<not> P f) \<and> (\<exists>f\<in>set xs. P f))"
  unfolding length_filter_all by (auto simp: filter_empty_conv)

lemma map_of_hasProperty: "map_of obj k = Some v \<Longrightarrow> hasProperty obj k"
  by (auto simp: hasProperty_def ownKeys_def dest: map_of_SomeD intro: rev_image_eqI)

lemma lintBookConfig_chapters:
  assumes "manifest b = MappingManifest configData"
    and "map_of configData ''chapters'' = Some chapters"
  shows "lintBookConfig config b =
           checkChapters config (dirEntries b)
             ((initialResult (bookDir b))
                \<lparr> missing := filter (\<lambda>prop. \<not> hasProperty configData prop)
                                     (bookConfigRequiredProperties config) \<rparr>)
             chapters"
  using assms by (simp add: lintBookConfig_def Let_def)

lemma lintBookConfig_scripts_chapters:
  assumes "manifest b = MappingManifest configData"
    and "map_of configData ''chapters'' = Some chapters"
  shows "lintBookConfig_scripts config b =
           checkChapters_scripts config
             ((initialResult (bookDir b))
                \<lparr> missing := filter (\<lambda>prop. \<not> hasProperty configData prop)
                                     (bookConfigRequiredProperties config) \<rparr>)
             chapters"
  using assms by (simp add: lintBookConfig_scripts_def Let_def)

lemma checkNumberedChapterFiles_fields:
  assumes md: "mdFiles = sort (filter (\<lambda>f. endsWith f ''.md'') entries)"
    and S: "slugs = map extractSlugFromNumberedChapter
                      (filter isNumberedChapterFileName mdFiles)"
    and r: "r = checkNumberedChapterFiles entries result"
    and clean: "\<not> invalidChapters result" "chaptersError result = None"
       "\<not> duplicateChapterSlug result" "duplicateChapterNames result = None"
  shows "BookConfigLintResult.missing r = BookConfigLintResult.missing result"
    and "mdFiles = [] \<Longrightarrow> invalidChapters r \<and> chaptersError r = Some NoMarkdownFiles"
    and "\<exists>f\<in>set mdFiles. isNumberedChapterFileName f \<Longrightarrow>
         \<exists>f\<in>set mdFiles. \<not> isNumberedChapterFileName f \<Longrightarrow>
           invalidChapters r \<and> chaptersError r = Some MixedNumbering"
    and "mdFiles \<noteq> [] \<Longrightarrow>
         (\<forall>f\<in>set mdFiles. isNumberedChapterFileName f)
           \<or> (\<forall>f\<in>set mdFiles. \<not> isNumberedChapterFileName f) \<Longrightarrow>
           invalidChapters r = (\<not> distinct slugs)
           \<and> duplicateChapterSlug r = (\<not> distinct slugs)
           \<and> (\<not> distinct slugs \<longrightarrow>
                 chaptersError r
                   = Some (DuplicateSlugs (join '', '' (repeatedEntries slugs {})))
                 \<and> duplicateChapterNames r = Some (repeatedEntries slugs {}))
           \<and> (distinct slugs \<longrightarrow> chaptersError r = None)"
proof -
  have dup: "numberedDuplicates mdFiles {} [] = repeatedEntries slugs {}"
    by (simp add: numberedDuplicates_eq S)
  have nil: "(repeatedEntries slugs {} = []) = distinct slugs"
    by (simp add: repeatedEntries_Nil)
  note mixed = mixed_condition [of isNumberedChapterFileName mdFiles]
  show "BookConfigLintResult.missing r = BookConfigLintResult.missing result"
    unfolding r checkNumberedChapterFiles_def Let_def md [symmetric] by simp
  show "mdFiles = [] \<Longrightarrow> invalidChapters r \<and> chaptersError r = Some NoMarkdownFiles"
    unfolding r checkNumberedChapterFiles_def Let_def md [symmetric] by simp
  show "\<exists>f\<in>set mdFiles. isNumberedChapterFileName f \<Longrightarrow>
         \<exists>f\<in>set mdFiles. \<not> isNumberedChapterFileName f \<Longrightarrow>
           invalidChapters r \<and> chaptersError r = Some MixedNumbering"
  proof -
    assume a: "\<exists>f\<in>set mdFiles. isNumberedChapterFileName f"
      and b: "\<exists>f\<in>set mdFiles. \<not> isNumberedChapterFileName f"
    from a have ne: "length mdFiles \<noteq> 0" by auto
    from a b mixed have mx: "0 < length (filter (\<lambda>f. \<not> isNumberedChapterFileName f) mdFiles)
       \<and> length (filter (\<lambda>f. \<not> isNumberedChapterFileName f) mdFiles) \<noteq> length mdFiles"
      by blast
    show ?thesis
      unfolding r checkNumberedChapterFiles_def Let_def md [symmetric]
      using ne mx by simp
  qed
  show "mdFiles \<noteq> [] \<Longrightarrow>
         (\<forall>f\<in>set mdFiles. isNumberedChapterFileName f)
           \<or> (\<forall>f\<in>set mdFiles. \<not> isNumberedChapterFileName f) \<Longrightarrow>
           invalidChapters r = (\<not> distinct slugs)
           \<and> duplicateChapterSlug r = (\<not> distinct slugs)
           \<and> (\<not> distinct slugs \<longrightarrow>
                 chaptersError r
                   = Some (DuplicateSlugs (join '', '' (repeatedEntries slugs {})))
                 \<and> duplicateChapterNames r = Some (repeatedEntries slugs {}))
           \<and> (distinct slugs \<longrightarrow> chaptersError r = None)"
  proof -
    assume ne0: "mdFiles \<noteq> []"
      and u: "(\<forall>f\<in>set mdFiles. isNumberedChapterFileName f)
           \<or> (\<forall>f\<in>set mdFiles. \<not> isNumberedChapterFileName f)"
    from ne0 have ne: "length mdFiles \<noteq> 0" by simp
    from u mixed have mx: "\<not> (0 < length (filter (\<lambda>f. \<not> isNumberedChapterFileName f) mdFiles)
       \<and> length (filter (\<lambda>f. \<not> isNumberedChapterFileName f) mdFiles) \<noteq> length mdFiles)"
      by blast
    have eq: "r = (if 0 < length (repeatedEntries slugs {})
               then result\<lparr> duplicateChapterSlug := True,
                            duplicateChapterNames := Some (repeatedEntries slugs {}),
                            invalidChapters := True,
                            chaptersError :=
                              Some (DuplicateSlugs (join '', '' (repeatedEntries slugs {}))) \<rparr>
               else result)"
      unfolding r checkNumberedChapterFiles_def Let_def md [symmetric] dup
      using ne mx by (simp only: if_False if_not_P)
    show ?thesis
    proof (cases "distinct slugs")
      case True
      with nil have "repeatedEntries slugs {} = []" by simp
      with eq have "r = result" by simp
      with True clean show ?thesis by simp
    next
      case False
      with nil have "0 < length (repeatedEntries slugs {})" by simp
      with eq have "r = result\<lparr> duplicateChapterSlug := True,
                            duplicateChapterNames := Some (repeatedEntries slugs {}),
                            invalidChapters := True,
                            chaptersError :=
                              Some (DuplicateSlugs (join '', '' (repeatedEntries slugs {}))) \<rparr>"
        by simp
      with False show ?thesis by simp
    qed
  qed
qed

lemma hasProperty_file_title:
  "hasProperty m ''file'' = (''file'' \<in> set (ownKeys m))"
  "hasProperty m ''title'' = (''title'' \<in> set (ownKeys m))"
  "hasProperty m ''chapters'' = (''chapters'' \<in> set (ownKeys m))"
  by (simp_all add: hasProperty_def objectPrototypeKeys_def)

lemma findInvalidChapter_descriptors:
  "list_all isDescriptor cs \<Longrightarrow>
     \<exists>found. findInvalidChapter cs = Inr found
       \<and> foundTruthy found =
           (\<exists>m. YMap m \<in> set cs
                \<and> (''file'' \<notin> set (ownKeys m) \<or> ''title'' \<notin> set (ownKeys m)))"
proof (induction cs)
  case Nil
  show ?case by (simp add: foundTruthy_def)
next
  case (Cons c cs)
  then have d: "isDescriptor c" and r: "list_all isDescriptor cs" by simp_all
  from d obtain m where c: "c = YMap m" by (cases c) auto
  from Cons.IH [OF r] obtain found where ih: "findInvalidChapter cs = Inr found"
    "foundTruthy found =
       (\<exists>m. YMap m \<in> set cs
            \<and> (''file'' \<notin> set (ownKeys m) \<or> ''title'' \<notin> set (ownKeys m)))" by blast
  show ?case
  proof (cases "''file'' \<notin> set (ownKeys m) \<or> ''title'' \<notin> set (ownKeys m)")
    case True
    then have "findInvalidChapter (c # cs) = Inr (Some c)"
      unfolding c by (auto simp: hasProperty_file_title)
    moreover have "foundTruthy (Some c)" unfolding c by (simp add: foundTruthy_def)
    ultimately show ?thesis using True c by auto
  next
    case False
    then have "findInvalidChapter (c # cs) = Inr found"
      unfolding c using ih(1) by (auto simp: hasProperty_file_title)
    then show ?thesis using ih(2) False c by auto
  qed
qed

lemma checkChapters_descriptors:
  assumes ne: "cs \<noteq> []" and ds: "list_all isDescriptor cs"
    and S: "slugs = List.map_filter descriptorSlug cs"
    and r: "r = checkChapters config entries result (YSeq cs)"
    and clean: "\<not> invalidChapters result" "\<not> duplicateChapterSlug result"
  shows "BookConfigLintResult.missing r = BookConfigLintResult.missing result"
    and "invalidChapters r =
           (\<exists>m. YMap m \<in> set cs
                \<and> (''file'' \<notin> set (ownKeys m) \<or> ''title'' \<notin> set (ownKeys m)))"
    and "duplicateChapterSlug r = (\<not> distinct slugs)"
    and "\<not> distinct slugs \<Longrightarrow> duplicateChapterNames r = Some (repeatedEntries slugs {})"
proof -
  from ne obtain c cs' where cs: "cs = c # cs'" by (cases cs) auto
  from findInvalidChapter_descriptors [OF ds] obtain found where
    f: "findInvalidChapter cs = Inr found"
    and ft: "foundTruthy found =
           (\<exists>m. YMap m \<in> set cs
                \<and> (''file'' \<notin> set (ownKeys m) \<or> ''title'' \<notin> set (ownKeys m)))" by blast
  have d: "chapterDuplicates cs {} [] = Inr (repeatedEntries slugs {})"
    using chapterDuplicates_eq [OF ds, of "{}" "[]"] S by simp
  have nil: "(repeatedEntries slugs {} = []) = distinct slugs"
    by (simp add: repeatedEntries_Nil)
  let ?r1 = "if foundTruthy found
             then result\<lparr> invalidChapters := True,
                          chaptersError := Some ChapterLacksFileOrTitle \<rparr>
             else result"
  have eq: "r = (if 0 < length (repeatedEntries slugs {})
                 then ?r1\<lparr> duplicateChapterSlug := True,
                           duplicateChapterNames := Some (repeatedEntries slugs {}) \<rparr>
                 else ?r1)"
    using f d unfolding r cs by (simp add: Let_def)
  show "BookConfigLintResult.missing r = BookConfigLintResult.missing result"
    unfolding eq by simp
  show "invalidChapters r =
           (\<exists>m. YMap m \<in> set cs
                \<and> (''file'' \<notin> set (ownKeys m) \<or> ''title'' \<notin> set (ownKeys m)))"
    unfolding eq ft [symmetric] using clean(1) by simp
  show "duplicateChapterSlug r = (\<not> distinct slugs)"
    unfolding eq using clean(2) nil by auto
  show "\<not> distinct slugs \<Longrightarrow> duplicateChapterNames r = Some (repeatedEntries slugs {})"
    unfolding eq using nil by auto
qed

text \<open>
  The fallback of the later linter. For a manifest whose \<^verbatim>\<open>chapters\<close> is the empty list and
  a book directory that can be listed, with \<open>mdFiles\<close> the sorted Markdown files of the
  directory and \<open>slugs\<close> the slugs of its numbered files: \<^verbatim>\<open>chapters\<close> is not reported
  missing; no Markdown file is an error; numbered files beside others are an error; otherwise
  the chapters are invalid exactly when a slug repeats, and then the repeated slugs are listed.
\<close>

lemma lintBookConfig_empty_chapters:
  assumes m: "manifest b = MappingManifest configData"
    and c: "map_of configData ''chapters'' = Some (YSeq [])"
    and e: "dirEntries b = Some entries"
    and md: "mdFiles = sort (filter (\<lambda>f. endsWith f ''.md'') entries)"
    and S: "slugs = map extractSlugFromNumberedChapter
                      (filter isNumberedChapterFileName mdFiles)"
    and r: "r = lintBookConfig config b"
  shows "''chapters'' \<notin> set (BookConfigLintResult.missing r)"
    and "mdFiles = [] \<Longrightarrow> invalidChapters r \<and> chaptersError r = Some NoMarkdownFiles"
    and "\<exists>f\<in>set mdFiles. isNumberedChapterFileName f \<Longrightarrow>
         \<exists>f\<in>set mdFiles. \<not> isNumberedChapterFileName f \<Longrightarrow>
           invalidChapters r \<and> chaptersError r = Some MixedNumbering"
    and "mdFiles \<noteq> [] \<Longrightarrow>
         (\<forall>f\<in>set mdFiles. isNumberedChapterFileName f)
           \<or> (\<forall>f\<in>set mdFiles. \<not> isNumberedChapterFileName f) \<Longrightarrow>
           invalidChapters r = (\<not> distinct slugs)
           \<and> duplicateChapterSlug r = (\<not> distinct slugs)
           \<and> (\<not> distinct slugs \<longrightarrow>
                 chaptersError r
                   = Some (DuplicateSlugs (join '', '' (repeatedEntries slugs {})))
                 \<and> duplicateChapterNames r = Some (repeatedEntries slugs {}))
           \<and> (distinct slugs \<longrightarrow> chaptersError r = None)"
    and "set (repeatedEntries slugs {}) = {s. 2 \<le> count_list slugs s}"
proof -
  let ?result = "(initialResult (bookDir b))
                \<lparr> missing := filter (\<lambda>prop. \<not> hasProperty configData prop)
                                     (bookConfigRequiredProperties config) \<rparr>"
  have eq: "r = checkNumberedChapterFiles entries ?result"
    unfolding r lintBookConfig_chapters [OF m c] using e by simp
  have clean: "\<not> invalidChapters ?result" "chaptersError ?result = None"
       "\<not> duplicateChapterSlug ?result" "duplicateChapterNames ?result = None"
    by (simp_all add: initialResult_def)
  note f = checkNumberedChapterFiles_fields [OF md S eq clean]
  have "hasProperty configData ''chapters''" using c by (rule map_of_hasProperty)
  then have "''chapters'' \<notin> set (BookConfigLintResult.missing ?result)" by simp
  then show "''chapters'' \<notin> set (BookConfigLintResult.missing r)" using f(1) by simp
  show "mdFiles = [] \<Longrightarrow> invalidChapters r \<and> chaptersError r = Some NoMarkdownFiles"
    by (rule f(2))
  show "\<exists>f\<in>set mdFiles. isNumberedChapterFileName f \<Longrightarrow>
         \<exists>f\<in>set mdFiles. \<not> isNumberedChapterFileName f \<Longrightarrow>
           invalidChapters r \<and> chaptersError r = Some MixedNumbering"
    by (rule f(3))
  show "mdFiles \<noteq> [] \<Longrightarrow>
         (\<forall>f\<in>set mdFiles. isNumberedChapterFileName f)
           \<or> (\<forall>f\<in>set mdFiles. \<not> isNumberedChapterFileName f) \<Longrightarrow>
           invalidChapters r = (\<not> distinct slugs)
           \<and> duplicateChapterSlug r = (\<not> distinct slugs)
           \<and> (\<not> distinct slugs \<longrightarrow>
                 chaptersError r
                   = Some (DuplicateSlugs (join '', '' (repeatedEntries slugs {})))
                 \<and> duplicateChapterNames r = Some (repeatedEntries slugs {}))
           \<and> (distinct slugs \<longrightarrow> chaptersError r = None)"
    by (rule f(4))
  show "set (repeatedEntries slugs {}) = {s. 2 \<le> count_list slugs s}"
  proof -
    have "2 \<le> count_list slugs s \<Longrightarrow> s \<in> set slugs" for s
      by (metis count_list_0_iff not_numeral_le_zero)
    then show ?thesis unfolding repeatedEntries_set by auto
  qed
qed

text \<open>
  An explicit chapter list in the later linter. For a manifest whose \<^verbatim>\<open>chapters\<close> is a
  non-empty list of descriptors (mappings whose \<^verbatim>\<open>file\<close>, if present, is a string), the
  chapters are invalid exactly when a descriptor lacks \<^verbatim>\<open>file\<close> or \<^verbatim>\<open>title\<close>; apart from
  that, a duplicate is flagged exactly when two descriptors give the same slug, and the
  repeated slugs are listed.
\<close>

lemma lintBookConfig_descriptors:
  assumes m: "manifest b = MappingManifest configData"
    and c: "map_of configData ''chapters'' = Some (YSeq cs)"
    and ne: "cs \<noteq> []" and ds: "list_all isDescriptor cs"
    and S: "slugs = List.map_filter descriptorSlug cs"
    and r: "r = lintBookConfig config b"
  shows "invalidChapters r =
           (\<exists>m. YMap m \<in> set cs
                \<and> (''file'' \<notin> set (ownKeys m) \<or> ''title'' \<notin> set (ownKeys m)))"
    and "duplicateChapterSlug r = (\<not> distinct slugs)"
    and "\<not> distinct slugs \<Longrightarrow> duplicateChapterNames r = Some (repeatedEntries slugs {})"
proof -
  let ?result = "(initialResult (bookDir b))
                \<lparr> missing := filter (\<lambda>prop. \<not> hasProperty configData prop)
                                     (bookConfigRequiredProperties config) \<rparr>"
  have eq: "r = checkChapters config (dirEntries b) ?result (YSeq cs)"
    unfolding r by (rule lintBookConfig_chapters [OF m c])
  have clean: "\<not> invalidChapters ?result" "\<not> duplicateChapterSlug ?result"
    by (simp_all add: initialResult_def)
  note f = checkChapters_descriptors [OF ne ds S eq clean]
  show "invalidChapters r =
           (\<exists>m. YMap m \<in> set cs
                \<and> (''file'' \<notin> set (ownKeys m) \<or> ''title'' \<notin> set (ownKeys m)))"
    by (rule f(2))
  show "duplicateChapterSlug r = (\<not> distinct slugs)" by (rule f(3))
  show "\<not> distinct slugs \<Longrightarrow> duplicateChapterNames r = Some (repeatedEntries slugs {})"
    by (rule f(4))
qed

lemmas book_defs = lintBookConfig_def lintBookConfig_scripts_def initialResult_def catchBlock_def
  checkNumberedChapterFiles_def endsWith_def isNumberedChapterFileName_def
  matchNumberedChapter_def extractSlugFromNumberedChapter_def isDigit_def isSlugChar_def
  foundTruthy_def hasProperty_def ownKeys_def objectPrototypeKeys_def DEFAULT_CONFIG_def
  basename_def extname_def lastComponent_def Let_def less_eq_char_def less_char_def


section \<open>The book claims on the two copies of the validator\<close>

text \<open>
  Claim C2 as stated fails on \<^verbatim>\<open>scripts/lint-zenn.ts\<close>. At a manifest with \<^verbatim>\<open>chapters: []\<close>
  in a directory holding \<^verbatim>\<open>1.a.md\<close> and \<^verbatim>\<open>2.b.md\<close>, which the claim calls valid, its
  validator reports invalid chapters: an empty list is an error there, with a message of its
  own, and the file names are never read.
\<close>

theorem C2_empty_chapters_counterexample:
  "lintBookConfig_scripts DEFAULT_CONFIG
     \<lparr> bookDir = ''books/b'',
       manifest = MappingManifest
         [(''title'', YStr ''T''), (''summary'', YStr ''S''), (''topics'', YSeq []),
          (''published'', YBool True), (''price'', YNum 0), (''chapters'', YSeq [])],
       dirEntries = Some [''config.yaml'', ''1.a.md'', ''2.b.md''] \<rparr>
   = \<lparr> dir = ''books/b'', missing = [], missingConfigFile = False, invalidChapters = True,
       chaptersError = Some EmptyChapters, duplicateChapterSlug = False,
       duplicateChapterNames = None \<rparr>"
  by (simp add: book_defs)

lemma lintBookConfig_scripts_empty_chapters:
  assumes "manifest b = MappingManifest configData"
    and "map_of configData ''chapters'' = Some (YSeq [])"
  shows "invalidChapters (lintBookConfig_scripts config b)"
    and "chaptersError (lintBookConfig_scripts config b) = Some EmptyChapters"
    and "''chapters'' \<notin> set (BookConfigLintResult.missing (lintBookConfig_scripts config b))"
proof -
  have h: "hasProperty configData ''chapters''" using assms(2) by (rule map_of_hasProperty)
  show "invalidChapters (lintBookConfig_scripts config b)"
    unfolding lintBookConfig_scripts_chapters [OF assms] by simp
  show "chaptersError (lintBookConfig_scripts config b) = Some EmptyChapters"
    unfolding lintBookConfig_scripts_chapters [OF assms] by simp
  show "''chapters'' \<notin> set (BookConfigLintResult.missing (lintBookConfig_scripts config b))"
    unfolding lintBookConfig_scripts_chapters [OF assms] using h by simp
qed

text \<open>
  Claim C2, amended. For a manifest whose \<^verbatim>\<open>chapters\<close> is present and is an empty list, the
  later validator (the one with \<^verbatim>\<open>checkNumberedChapterFiles\<close>) takes the fallback and does
  not report the key missing. With \<open>mdFiles\<close> the sorted Markdown files of the book
  directory: if there is none it reports invalid chapters (no chapter files); if some but
  not all are numbered it reports invalid chapters (mixed naming); otherwise, with \<open>slugs\<close>
  the slugs of the numbered files, it reports invalid chapters and a duplicate exactly when
  a slug repeats, and then lists the slugs that occur twice or more. The validator of
  \<^verbatim>\<open>scripts/lint-zenn.ts\<close> has no fallback: for every such manifest, whatever the directory
  holds, it reports invalid chapters, the list being empty.
\<close>

theorem C2_empty_chapters:
  assumes "manifest b = MappingManifest configData"
    and "map_of configData ''chapters'' = Some (YSeq [])"
    and "dirEntries b = Some entries"
    and "mdFiles = sort (filter (\<lambda>f. endsWith f ''.md'') entries)"
    and "slugs = map extractSlugFromNumberedChapter
                      (filter isNumberedChapterFileName mdFiles)"
  shows "''chapters'' \<notin> set (BookConfigLintResult.missing (lintBookConfig config b))
     \<and> (mdFiles = [] \<longrightarrow>
          invalidChapters (lintBookConfig config b)
          \<and> chaptersError (lintBookConfig config b) = Some NoMarkdownFiles)
     \<and> ((\<exists>f\<in>set mdFiles. isNumberedChapterFileName f)
          \<and> (\<exists>f\<in>set mdFiles. \<not> isNumberedChapterFileName f) \<longrightarrow>
          invalidChapters (lintBookConfig config b)
          \<and> chaptersError (lintBookConfig config b) = Some MixedNumbering)
     \<and> (mdFiles \<noteq> []
          \<and> ((\<forall>f\<in>set mdFiles. isNumberedChapterFileName f)
               \<or> (\<forall>f\<in>set mdFiles. \<not> isNumberedChapterFileName f)) \<longrightarrow>
          invalidChapters (lintBookConfig config b) = (\<not> distinct slugs)
          \<and> duplicateChapterSlug (lintBookConfig config b) = (\<not> distinct slugs)
          \<and> (\<not> distinct slugs \<longrightarrow>
                chaptersError (lintBookConfig config b)
                  = Some (DuplicateSlugs (join '', '' (repeatedEntries slugs {})))
                \<and> duplicateChapterNames (lintBookConfig config b)
                  = Some (repeatedEntries slugs {}))
          \<and> (distinct slugs \<longrightarrow> chaptersError (lintBookConfig config b) = None))
     \<and> set (repeatedEntries slugs {}) = {s. 2 \<le> count_list slugs s}
     \<and> invalidChapters (lintBookConfig_scripts config b)
     \<and> chaptersError (lintBookConfig_scripts config b) = Some EmptyChapters
     \<and> ''chapters'' \<notin> set (BookConfigLintResult.missing (lintBookConfig_scripts config b))"
proof -
  note f = lintBookConfig_empty_chapters [OF assms refl [of "lintBookConfig config b"]]
  note g = lintBookConfig_scripts_empty_chapters [OF assms(1,2), where config = config]
  from f(2) have a: "mdFiles = [] \<longrightarrow>
          invalidChapters (lintBookConfig config b)
          \<and> chaptersError (lintBookConfig config b) = Some NoMarkdownFiles" ..
  from f(3) have b: "(\<exists>f\<in>set mdFiles. isNumberedChapterFileName f)
          \<and> (\<exists>f\<in>set mdFiles. \<not> isNumberedChapterFileName f) \<longrightarrow>
          invalidChapters (lintBookConfig config b)
          \<and> chaptersError (lintBookConfig config b) = Some MixedNumbering" by blast
  from f(4) have c: "mdFiles \<noteq> []
          \<and> ((\<forall>f\<in>set mdFiles. isNumberedChapterFileName f)
               \<or> (\<forall>f\<in>set mdFiles. \<not> isNumberedChapterFileName f)) \<longrightarrow>
          invalidChapters (lintBookConfig config b) = (\<not> distinct slugs)
          \<and> duplicateChapterSlug (lintBookConfig config b) = (\<not> distinct slugs)
          \<and> (\<not> distinct slugs \<longrightarrow>
                chaptersError (lintBookConfig config b)
                  = Some (DuplicateSlugs (join '', '' (repeatedEntries slugs {})))
                \<and> duplicateChapterNames (lintBookConfig config b)
                  = Some (repeatedEntries slugs {}))
          \<and> (distinct slugs \<longrightarrow> chaptersError (lintBookConfig config b) = None)"
    by (intro impI) (elim conjE, rule f(4))
  from f(1) a b c f(5) g show ?thesis by (intro conjI)
qed

text \<open>
  The two manifests of the claim under the later validator: with the files \<^verbatim>\<open>1.a.md\<close> and
  \<^verbatim>\<open>2.b.md\<close> the chapters are valid, with \<^verbatim>\<open>1.a.md\<close> and \<^verbatim>\<open>2.a.md\<close> they are invalid and
  the duplicate \<^verbatim>\<open>a\<close> is reported; under \<^verbatim>\<open>scripts/lint-zenn.ts\<close> the first is invalid.
\<close>

theorem C2_empty_chapters_witness:
  "invalidChapters (lintBookConfig DEFAULT_CONFIG
       \<lparr> bookDir = ''books/b'',
         manifest = MappingManifest [(''title'', YStr ''T''), (''chapters'', YSeq [])],
         dirEntries = Some [''config.yaml'', ''2.b.md'', ''1.a.md''] \<rparr>) = False
   \<and> chaptersError (lintBookConfig DEFAULT_CONFIG
       \<lparr> bookDir = ''books/b'',
         manifest = MappingManifest [(''title'', YStr ''T''), (''chapters'', YSeq [])],
         dirEntries = Some [''config.yaml'', ''2.b.md'', ''1.a.md''] \<rparr>) = None
   \<and> invalidChapters (lintBookConfig_scripts DEFAULT_CONFIG
       \<lparr> bookDir = ''books/b'',
         manifest = MappingManifest [(''title'', YStr ''T''), (''chapters'', YSeq [])],
         dirEntries = Some [''config.yaml'', ''2.b.md'', ''1.a.md''] \<rparr>)
   \<and> invalidChapters (lintBookConfig DEFAULT_CONFIG
       \<lparr> bookDir = ''books/b'',
         manifest = MappingManifest [(''title'', YStr ''T''), (''chapters'', YSeq [])],
         dirEntries = Some [''config.yaml'', ''1.a.md'', ''2.a.md''] \<rparr>) = True
   \<and> duplicateChapterNames (lintBookConfig DEFAULT_CONFIG
       \<lparr> bookDir = ''books/b'',
         manifest = MappingManifest [(''title'', YStr ''T''), (''chapters'', YSeq [])],
         dirEntries = Some [''config.yaml'', ''1.a.md'', ''2.a.md''] \<rparr>) = Some [''a'']"
proof -
  let ?cd = "[(''title'', YStr ''T''), (''chapters'', YSeq [])]"
  let ?b1 = "\<lparr> bookDir = ''books/b'', manifest = MappingManifest ?cd,
                dirEntries = Some [''config.yaml'', ''2.b.md'', ''1.a.md''] \<rparr>"
  let ?b2 = "\<lparr> bookDir = ''books/b'', manifest = MappingManifest ?cd,
                dirEntries = Some [''config.yaml'', ''1.a.md'', ''2.a.md''] \<rparr>"
  have c: "map_of ?cd ''chapters'' = Some (YSeq [])" by simp
  have m1: "manifest ?b1 = MappingManifest ?cd" by simp
  have e1: "dirEntries ?b1 = Some [''config.yaml'', ''2.b.md'', ''1.a.md'']" by simp
  have md1: "[''1.a.md'', ''2.b.md'']
               = sort (filter (\<lambda>f. endsWith f ''.md'') [''config.yaml'', ''2.b.md'', ''1.a.md''])"
    by (simp add: book_defs)
  have s1: "[''a'', ''b''] = map extractSlugFromNumberedChapter
                      (filter isNumberedChapterFileName [''1.a.md'', ''2.b.md''])"
    by (simp add: book_defs)
  have n1: "[''1.a.md'', ''2.b.md''] \<noteq> []
          \<and> ((\<forall>f\<in>set [''1.a.md'', ''2.b.md'']. isNumberedChapterFileName f)
               \<or> (\<forall>f\<in>set [''1.a.md'', ''2.b.md'']. \<not> isNumberedChapterFileName f))"
    by (simp add: book_defs)
  note t1 = C2_empty_chapters [OF m1 c e1 md1 s1, of DEFAULT_CONFIG]
  note u1 = t1 [THEN conjunct2, THEN conjunct2, THEN conjunct2, THEN conjunct1, THEN mp, OF n1]
  from u1 have a: "invalidChapters (lintBookConfig DEFAULT_CONFIG ?b1) = False" by simp
  from u1 have b: "chaptersError (lintBookConfig DEFAULT_CONFIG ?b1) = None" by simp
  from t1 have s: "invalidChapters (lintBookConfig_scripts DEFAULT_CONFIG ?b1)" by (elim conjE)
  have m2: "manifest ?b2 = MappingManifest ?cd" by simp
  have e2: "dirEntries ?b2 = Some [''config.yaml'', ''1.a.md'', ''2.a.md'']" by simp
  have md2: "[''1.a.md'', ''2.a.md'']
               = sort (filter (\<lambda>f. endsWith f ''.md'') [''config.yaml'', ''1.a.md'', ''2.a.md''])"
    by (simp add: book_defs)
  have s2: "[''a'', ''a''] = map extractSlugFromNumberedChapter
                      (filter isNumberedChapterFileName [''1.a.md'', ''2.a.md''])"
    by (simp add: book_defs)
  have n2: "[''1.a.md'', ''2.a.md''] \<noteq> []
          \<and> ((\<forall>f\<in>set [''1.a.md'', ''2.a.md'']. isNumberedChapterFileName f)
               \<or> (\<forall>f\<in>set [''1.a.md'', ''2.a.md'']. \<not> isNumberedChapterFileName f))"
    by (simp add: book_defs)
  note t2 = C2_empty_chapters [OF m2 c e2 md2 s2, of DEFAULT_CONFIG]
  note u2 = t2 [THEN conjunct2, THEN conjunct2, THEN conjunct2, THEN conjunct1, THEN mp, OF n2]
  from u2 have d: "invalidChapters (lintBookConfig DEFAULT_CONFIG ?b2) = True" by simp
  from u2 have "duplicateChapterNames (lintBookConfig DEFAULT_CONFIG ?b2)
                  = Some (repeatedEntries [''a'', ''a''] {})" by simp
  then have e: "duplicateChapterNames (lintBookConfig DEFAULT_CONFIG ?b2) = Some [''a'']"
    by (simp add: repeatedEntries.simps)
  from a b s d e show ?thesis by (intro conjI)
qed

text \<open>
  Claim C3, at three manifests. With two descriptors naming the same file \<^verbatim>\<open>a.md\<close>, the
  validator of \<^verbatim>\<open>scripts/lint-zenn.ts\<close> flags nothing: it has no duplicate search; the later
  validator flags the duplicate \<^verbatim>\<open>a\<close>. With the chapter list \<^verbatim>\<open>[""]\<close>, whose entry has
  neither key, both validators find the entry and then drop it, because the empty string is
  false. With the chapter list \<^verbatim>\<open>[null]\<close> both raise inside the search, and the handler
  reports every required key missing and no invalid chapter. The manifest of the claim,
  \<^verbatim>\<open>chapters: [{file: "x.md"}]\<close>, is reported invalid by both.
\<close>

theorem C3_failing_inputs:
  "lintBookConfig_scripts DEFAULT_CONFIG
     \<lparr> bookDir = ''books/b'',
       manifest = MappingManifest
         [(''title'', YStr ''T''), (''summary'', YStr ''S''), (''topics'', YSeq []),
          (''published'', YBool True), (''price'', YNum 0),
          (''chapters'', YSeq [YMap [(''file'', YStr ''a.md''), (''title'', YStr ''A'')],
                                YMap [(''file'', YStr ''a.md''), (''title'', YStr ''B'')]])],
       dirEntries = Some [''config.yaml'', ''a.md''] \<rparr>
   = \<lparr> dir = ''books/b'', missing = [], missingConfigFile = False, invalidChapters = False,
       chaptersError = None, duplicateChapterSlug = False, duplicateChapterNames = None \<rparr>
   \<and> lintBookConfig DEFAULT_CONFIG
     \<lparr> bookDir = ''books/b'',
       manifest = MappingManifest
         [(''title'', YStr ''T''), (''summary'', YStr ''S''), (''topics'', YSeq []),
          (''published'', YBool True), (''price'', YNum 0),
          (''chapters'', YSeq [YMap [(''file'', YStr ''a.md''), (''title'', YStr ''A'')],
                                YMap [(''file'', YStr ''a.md''), (''title'', YStr ''B'')]])],
       dirEntries = Some [''config.yaml'', ''a.md''] \<rparr>
   = \<lparr> dir = ''books/b'', missing = [], missingConfigFile = False, invalidChapters = False,
       chaptersError = None, duplicateChapterSlug = True,
       duplicateChapterNames = Some [''a''] \<rparr>
   \<and> lintBookConfig DEFAULT_CONFIG
     \<lparr> bookDir = ''books/b'',
       manifest = MappingManifest
         [(''title'', YStr ''T''), (''summary'', YStr ''S''), (''topics'', YSeq []),
          (''published'', YBool True), (''price'', YNum 0),
          (''chapters'', YSeq [YStr ''''])],
       dirEntries = Some [''config.yaml''] \<rparr>
   = \<lparr> dir = ''books/b'', missing = [], missingConfigFile = False, invalidChapters = False,
       chaptersError = None, duplicateChapterSlug = False, duplicateChapterNames = None \<rparr>
   \<and> lintBookConfig_scripts DEFAULT_CONFIG
     \<lparr> bookDir = ''books/b'',
       manifest = MappingManifest
         [(''title'', YStr ''T''), (''summary'', YStr ''S''), (''topics'', YSeq []),
          (''published'', YBool True), (''price'', YNum 0),
          (''chapters'', YSeq [YStr ''''])],
       dirEntries = Some [''config.yaml''] \<rparr>
   = \<lparr> dir = ''books/b'', missing = [], missingConfigFile = False, invalidChapters = False,
       chaptersError = None, duplicateChapterSlug = False, duplicateChapterNames = None \<rparr>
   \<and> lintBookConfig DEFAULT_CONFIG
     \<lparr> bookDir = ''books/b'',
       manifest = MappingManifest
         [(''title'', YStr ''T''), (''summary'', YStr ''S''), (''topics'', YSeq []),
          (''published'', YBool True), (''price'', YNum 0),
          (''chapters'', YSeq [YNull])],
       dirEntries = Some [''config.yaml''] \<rparr>
   = \<lparr> dir = ''books/b'',
       missing = [''title'', ''summary'', ''topics'', ''published'', ''price'', ''chapters''],
       missingConfigFile = False, invalidChapters = False,
       chaptersError = None, duplicateChapterSlug = False, duplicateChapterNames = None \<rparr>
   \<and> invalidChapters (lintBookConfig DEFAULT_CONFIG
     \<lparr> bookDir = ''books/b'',
       manifest = MappingManifest [(''chapters'', YSeq [YMap [(''file'', YStr ''x.md'')]])],
       dirEntries = Some [''config.yaml''] \<rparr>)
   \<and> invalidChapters (lintBookConfig_scripts DEFAULT_CONFIG
     \<lparr> bookDir = ''books/b'',
       manifest = MappingManifest [(''chapters'', YSeq [YMap [(''file'', YStr ''x.md'')]])],
       dirEntries = Some [''config.yaml''] \<rparr>)"
  by (simp add: book_defs)

text \<open>
  Claim C10 as stated fails on \<^verbatim>\<open>scripts/lint-zenn.ts\<close>: for a manifest with a null
  \<^verbatim>\<open>chapters\<close> its validator reports invalid chapters.
\<close>

theorem C10_null_chapters_counterexample:
  "\<not> (''chapters'' \<notin> set (BookConfigLintResult.missing
          (lintBookConfig_scripts DEFAULT_CONFIG
             \<lparr> bookDir = ''books/b'',
               manifest = MappingManifest
                 [(''title'', YStr ''T''), (''summary'', YStr ''S''), (''topics'', YSeq []),
                  (''published'', YBool True), (''price'', YNum 0), (''chapters'', YNull)],
               dirEntries = Some [''config.yaml'', ''1.a.md''] \<rparr>))
       \<and> \<not> invalidChapters
          (lintBookConfig_scripts DEFAULT_CONFIG
             \<lparr> bookDir = ''books/b'',
               manifest = MappingManifest
                 [(''title'', YStr ''T''), (''summary'', YStr ''S''), (''topics'', YSeq []),
                  (''published'', YBool True), (''price'', YNum 0), (''chapters'', YNull)],
               dirEntries = Some [''config.yaml'', ''1.a.md''] \<rparr>))"
  by (simp add: book_defs)

text \<open>
  Claim C10, amended. For a manifest whose \<^verbatim>\<open>chapters\<close> key is present with the value null,
  the later validator (the one with the file-name fallback) reports neither a missing
  \<^verbatim>\<open>chapters\<close> key nor invalid chapters nor a duplicate: its not-a-list test excludes null.
  The validator of \<^verbatim>\<open>scripts/lint-zenn.ts\<close> tests only \<^verbatim>\<open>!Array.isArray(chapters)\<close>: it
  does not report the key missing either, and it reports invalid chapters, the value being
  no array.
\<close>

theorem C10_null_chapters:
  assumes "manifest b = MappingManifest configData"
    and "map_of configData ''chapters'' = Some YNull"
  shows "''chapters'' \<notin> set (BookConfigLintResult.missing (lintBookConfig config b))
         \<and> \<not> invalidChapters (lintBookConfig config b)
         \<and> chaptersError (lintBookConfig config b) = None
         \<and> \<not> duplicateChapterSlug (lintBookConfig config b)
         \<and> ''chapters'' \<notin> set (BookConfigLintResult.missing (lintBookConfig_scripts config b))
         \<and> invalidChapters (lintBookConfig_scripts config b)
         \<and> chaptersError (lintBookConfig_scripts config b) = Some NotAnArray"
proof -
  have h: "hasProperty configData ''chapters''" using assms(2) by (rule map_of_hasProperty)
  show ?thesis
    unfolding lintBookConfig_chapters [OF assms] lintBookConfig_scripts_chapters [OF assms]
    using h by (simp add: initialResult_def)
qed

theorem C10_null_chapters_witness:
  "manifest \<lparr> bookDir = ''books/b'',
               manifest = MappingManifest [(''title'', YStr ''T''), (''chapters'', YNull)],
               dirEntries = Some [''config.yaml''] \<rparr>
     = MappingManifest [(''title'', YStr ''T''), (''chapters'', YNull)]
   \<and> map_of [(''title'', YStr ''T''), (''chapters'', YNull)] ''chapters'' = Some YNull
   \<and> \<not> invalidChapters (lintBookConfig DEFAULT_CONFIG
          \<lparr> bookDir = ''books/b'',
            manifest = MappingManifest [(''title'', YStr ''T''), (''chapters'', YNull)],
            dirEntries = Some [''config.yaml''] \<rparr>)
   \<and> invalidChapters (lintBookConfig_scripts DEFAULT_CONFIG
          \<lparr> bookDir = ''books/b'',
            manifest = MappingManifest [(''title'', YStr ''T''), (''chapters'', YNull)],
            dirEntries = Some [''config.yaml''] \<rparr>)"
proof -
  let ?cd = "[(''title'', YStr ''T''), (''chapters'', YNull)]"
  let ?b = "\<lparr> bookDir = ''books/b'', manifest = MappingManifest ?cd,
               dirEntries = Some [''config.yaml''] \<rparr>"
  have m: "manifest ?b = MappingManifest ?cd" by simp
  have c: "map_of ?cd ''chapters'' = Some YNull" by simp
  note t = C10_null_chapters [OF m c, of DEFAULT_CONFIG]
  from t have a: "\<not> invalidChapters (lintBookConfig DEFAULT_CONFIG ?b)" by (elim conjE)
  from t have b: "invalidChapters (lintBookConfig_scripts DEFAULT_CONFIG ?b)" by (elim conjE)
  from m c a b show ?thesis by (intro conjI)
qed


section \<open>The report\<close>

lemma bookReport_missing:
  "(BookMissingLine s \<in> set (bookReport r)) =
     (BookConfigLintResult.missing r \<noteq> [] \<and> s = join '', '' (BookConfigLintResult.missing r))"
  by (auto simp: bookReport_def)

lemma bookReport_findings:
  "missingConfigFile r \<Longrightarrow> MissingConfigFileLine \<in> set (bookReport r)"
  "invalidChapters r \<Longrightarrow> ChaptersErrorLine (chaptersError r) \<in> set (bookReport r)"
  "duplicateChapterSlug r \<Longrightarrow>
     DuplicateSlugLine (join '', '' (case duplicateChapterNames r of
                                      None \<Rightarrow> [] | Some names \<Rightarrow> names))
       \<in> set (bookReport r)"
  by (simp_all add: bookReport_def)

lemma frontmatterReport_findings:
  "LintResult.missing r \<noteq> [] \<Longrightarrow>
     MissingLine (join '', '' (LintResult.missing r)) \<in> set (frontmatterReport fix config r)"
  "wrongOrder r \<Longrightarrow> WrongOrderLine \<in> set (frontmatterReport fix config r)"
  "invalidSlug r \<Longrightarrow> SlugErrorLine (slugError r) \<in> set (frontmatterReport fix config r)"
  by (simp_all add: frontmatterReport_def)

lemma reportLines_books:
  "r \<in> set (bookConfigResults st) \<Longrightarrow>
     set (perBook r) \<subseteq> set (reportLines fix config perBook st)"
  by (auto simp: reportLines_def Let_def)

lemma reportLines_documents:
  "r \<in> set (frontmatterResults st) \<Longrightarrow>
     set (frontmatterReport fix config r) \<subseteq> set (reportLines fix config perBook st)"
  by (auto simp: reportLines_def Let_def)

lemma runMainWithoutExit_reports_missing:
  assumes "b \<in> set books"
    and "BookConfigLintResult.missing (lintBookConfig config b) \<noteq> []"
  shows "BookMissingLine (join '', '' (BookConfigLintResult.missing (lintBookConfig config b)))
           \<in> set (report (runMainWithoutExit fix config files books))"
proof -
  let ?r = "lintBookConfig config b"
  let ?st = "runState fix config files books"
  from assms(2) have fl: "bookFlagged ?r" by (simp add: bookFlagged_def)
  with assms(1) have "?r \<in> set (bookConfigResults ?st)"
    by (simp add: runState_bookConfigResults)
  then have "set (bookReport ?r) \<subseteq> set (reportLines fix config bookReport ?st)"
    by (rule reportLines_books)
  moreover have "BookMissingLine (join '', '' (BookConfigLintResult.missing ?r))
                   \<in> set (bookReport ?r)"
    using assms(2) by (simp add: bookReport_missing)
  moreover from assms(1) have "\<not> (length files = 0 \<and> length books = 0)" by auto
  ultimately show ?thesis by (auto simp: runMainWithoutExit_def Let_def)
qed

lemmas run_defs = main_scripts_def runMainWithoutExit_def runState_def initialState_def
  reportLines_def bookReport_def bookReport_scripts_def bookFlagged_def bookFlagged_scripts_def
  frontmatterReport_def documentFlagged_def

text \<open>
  Claim C9, at two books linted by \<^verbatim>\<open>main\<close> of \<^verbatim>\<open>scripts/lint-zenn.ts\<close>. The manifest
  of \<^verbatim>\<open>books/my-book\<close> lacks \<^verbatim>\<open>summary\<close>: the result lists it as missing and the run
  exits with 1, but the report of the book is its directory line alone. The manifest of
  \<^verbatim>\<open>books/zenn-book-sample\<close> has every required key and a \<^verbatim>\<open>chapters\<close> that is no list:
  the report names \<^verbatim>\<open>price\<close> as missing, which no check found. The later linter prints
  the missing keys of the first book.
\<close>

theorem C9_scripts_report_drops_missing:
  "BookConfigLintResult.missing
     (lintBookConfig_scripts DEFAULT_CONFIG
        \<lparr> bookDir = ''books/my-book'',
          manifest = MappingManifest
            [(''title'', YStr ''T''), (''topics'', YSeq []), (''published'', YBool True),
             (''price'', YNum 0),
             (''chapters'', YSeq [YMap [(''file'', YStr ''a.md''), (''title'', YStr ''A'')]])],
          dirEntries = Some [''config.yaml'', ''a.md''] \<rparr>)
     = [''summary'']
   \<and> main_scripts False DEFAULT_CONFIG ([] :: (string \<times> string jsobj option) list)
       [\<lparr> bookDir = ''books/my-book'',
          manifest = MappingManifest
            [(''title'', YStr ''T''), (''topics'', YSeq []), (''published'', YBool True),
             (''price'', YNum 0),
             (''chapters'', YSeq [YMap [(''file'', YStr ''a.md''), (''title'', YStr ''A'')]])],
          dirEntries = Some [''config.yaml'', ''a.md''] \<rparr>]
     = \<lparr> report = [BookHeader 1, BookDirLine ''books/my-book'', FixHintLine],
         exitCode = 1, fixedFiles = [] \<rparr>
   \<and> runMainWithoutExit False DEFAULT_CONFIG ([] :: (string \<times> string jsobj option) list)
       [\<lparr> bookDir = ''books/my-book'',
          manifest = MappingManifest
            [(''title'', YStr ''T''), (''topics'', YSeq []), (''published'', YBool True),
             (''price'', YNum 0),
             (''chapters'', YSeq [YMap [(''file'', YStr ''a.md''), (''title'', YStr ''A'')]])],
          dirEntries = Some [''config.yaml'', ''a.md''] \<rparr>]
     = \<lparr> report = [BookHeader 1, BookDirLine ''books/my-book'',
                     BookMissingLine ''summary'', FixHintLine],
         exitCode = 1, fixedFiles = [] \<rparr>
   \<and> BookConfigLintResult.missing
     (lintBookConfig_scripts DEFAULT_CONFIG
        \<lparr> bookDir = ''books/zenn-book-sample'',
          manifest = MappingManifest
            [(''title'', YStr ''T''), (''summary'', YStr ''S''), (''topics'', YSeq []),
             (''published'', YBool True), (''price'', YNum 0), (''chapters'', YStr ''a.md'')],
          dirEntries = Some [''config.yaml'', ''a.md''] \<rparr>)
     = []
   \<and> main_scripts False DEFAULT_CONFIG ([] :: (string \<times> string jsobj option) list)
       [\<lparr> bookDir = ''books/zenn-book-sample'',
          manifest = MappingManifest
            [(''title'', YStr ''T''), (''summary'', YStr ''S''), (''topics'', YSeq []),
             (''published'', YBool True), (''price'', YNum 0), (''chapters'', YStr ''a.md'')],
          dirEntries = Some [''config.yaml'', ''a.md''] \<rparr>]
     = \<lparr> report = [BookHeader 1, BookDirLine ''books/zenn-book-sample'',
                     BookMissingLine ''price'', ChaptersErrorLine (Some NotAnArray),
                     FixHintLine],
         exitCode = 1, fixedFiles = [] \<rparr>"
  by (simp add: run_defs book_defs)


section \<open>The frontmatter normalizer\<close>

lemma arrayIndex_inj: "arrayIndex a = Some n \<Longrightarrow> arrayIndex b = Some n \<Longrightarrow> a = b"
proof -
  assume a: "arrayIndex a = Some n" and b: "arrayIndex b = Some n"
  from a have "decimal n = a" by (auto simp: arrayIndex_def split: if_splits)
  moreover from b have "decimal n = b" by (auto simp: arrayIndex_def split: if_splits)
  ultimately show ?thesis by simp
qed

lemma indexOfKey_inj:
  "isIndexKey a \<Longrightarrow> isIndexKey b \<Longrightarrow> indexOfKey a = indexOfKey b \<Longrightarrow> a = b"
  by (auto simp: isIndexKey_def indexOfKey_def intro: arrayIndex_inj)

lemma firstOccurrences_set [simp]: "set (firstOccurrences xs) = set xs"
proof (induction xs rule: firstOccurrences.induct)
  case 1
  show ?case by simp
next
  case (2 x xs)
  then show ?case by auto
qed

lemma firstOccurrences_distinct [simp]: "distinct (firstOccurrences xs)"
  by (induction xs rule: firstOccurrences.induct) auto

lemma firstOccurrences_id: "distinct xs \<Longrightarrow> firstOccurrences xs = xs"
proof (induction xs)
  case Nil
  show ?case by simp
next
  case (Cons x xs)
  then have "filter (\<lambda>y. y \<noteq> x) xs = xs" by (auto simp: filter_id_conv)
  with Cons show ?case by simp
qed

lemma set_insertProperty: "set (insertProperty k v obj) = insert (k, v) (set obj)"
proof (cases "arrayIndex k")
  case None
  then show ?thesis by (simp add: insertProperty_def)
next
  case (Some n)
  let ?P = "\<lambda>(k', v'::'a). case arrayIndex k' of Some n' \<Rightarrow> n' < n | None \<Rightarrow> False"
  have "set (takeWhile ?P obj @ (k, v) # dropWhile ?P obj) = insert (k, v) (set obj)"
    by (metis Un_insert_right list.simps(15) set_append takeWhile_dropWhile_id)
  then show ?thesis using Some
    by (simp add: insertProperty_def Let_def dropWhile_eq_drop)
qed

lemma ownKeys_insertProperty:
  "set (ownKeys (insertProperty k v obj)) = insert k (set (ownKeys obj))"
  by (simp add: ownKeys_def set_insertProperty)

lemma takeWhile_append_fail:
  "\<forall>y\<in>set ys. \<not> P y \<Longrightarrow> takeWhile P (xs @ ys) = takeWhile P xs"
proof (induction xs)
  case Nil
  then show ?case by (cases ys) auto
next
  case (Cons x xs)
  then show ?case by simp
qed

lemma dropWhile_append_fail:
  "\<forall>y\<in>set ys. \<not> P y \<Longrightarrow> dropWhile P (xs @ ys) = dropWhile P xs @ ys"
proof (induction xs)
  case Nil
  then show ?case by (cases ys) auto
next
  case (Cons x xs)
  then show ?case by simp
qed

lemma dropWhile_sorted_ge:
  "sorted_wrt (\<lambda>p q. key p < key q) xs \<Longrightarrow> e \<in> set (dropWhile (\<lambda>p. key p < n) xs)
     \<Longrightarrow> (n::nat) \<le> key e"
proof (induction xs)
  case Nil
  then show ?case by simp
next
  case (Cons a xs)
  show ?case
  proof (cases "key a < n")
    case True
    with Cons show ?thesis by simp
  next
    case False
    with Cons.prems have "e = a \<or> e \<in> set xs" by simp
    then show ?thesis
    proof
      assume "e = a"
      with False show ?thesis by simp
    next
      assume "e \<in> set xs"
      with Cons.prems(1) have "key a < key e" by simp
      with False show ?thesis by simp
    qed
  qed
qed

lemma insertProperty_other:
  "\<not> isIndexKey k \<Longrightarrow> insertProperty k v obj = obj @ [(k, v)]"
  by (simp add: insertProperty_def isIndexKey_def)

lemma insertProperty_index:
  assumes "isIndexKey k"
  shows "insertProperty k v obj =
           takeWhile (\<lambda>p. isIndexKey (fst p) \<and> indexOfKey (fst p) < indexOfKey k) obj
           @ (k, v)
           # dropWhile (\<lambda>p. isIndexKey (fst p) \<and> indexOfKey (fst p) < indexOfKey k) obj"
proof -
  from assms obtain n where n: "arrayIndex k = Some n" by (auto simp: isIndexKey_def)
  have e: "(\<lambda>(k', v'::'a). case arrayIndex k' of Some n' \<Rightarrow> n' < n | None \<Rightarrow> False)
            = (\<lambda>p. isIndexKey (fst p) \<and> indexOfKey (fst p) < indexOfKey k)"
    using n by (auto simp: fun_eq_iff isIndexKey_def indexOfKey_def split: option.splits)
  show ?thesis
    using n by (simp add: insertProperty_def Let_def e dropWhile_eq_drop [symmetric])
qed

lemma filter_split:
  "\<forall>p\<in>set I. P p \<Longrightarrow> \<forall>p\<in>set S. \<not> P p \<Longrightarrow>
     filter P (I @ S) = I \<and> filter (\<lambda>p. \<not> P p) (I @ S) = S"
  by (simp add: filter_id_conv filter_empty_conv)

lemma propertyOrdered_iff:
  "propertyOrdered obj =
     (\<exists>I S. obj = I @ S \<and> (\<forall>p\<in>set I. isIndexKey (fst p))
            \<and> (\<forall>p\<in>set S. \<not> isIndexKey (fst p))
            \<and> distinct (map fst obj)
            \<and> sorted_wrt (\<lambda>p q. indexOfKey (fst p) < indexOfKey (fst q)) I)"
proof
  assume o: "propertyOrdered obj"
  let ?I = "filter (\<lambda>p. isIndexKey (fst p)) obj"
  let ?S = "filter (\<lambda>p. \<not> isIndexKey (fst p)) obj"
  from o have "obj = ?I @ ?S" "distinct (map fst obj)"
    "sorted_wrt (\<lambda>p q. indexOfKey (fst p) < indexOfKey (fst q)) ?I"
    by (simp_all add: propertyOrdered_def ownKeys_def)
  moreover have "\<forall>p\<in>set ?I. isIndexKey (fst p)" "\<forall>p\<in>set ?S. \<not> isIndexKey (fst p)"
    by simp_all
  ultimately show "\<exists>I S. obj = I @ S \<and> (\<forall>p\<in>set I. isIndexKey (fst p))
            \<and> (\<forall>p\<in>set S. \<not> isIndexKey (fst p))
            \<and> distinct (map fst obj)
            \<and> sorted_wrt (\<lambda>p q. indexOfKey (fst p) < indexOfKey (fst q)) I"
    by blast
next
  assume "\<exists>I S. obj = I @ S \<and> (\<forall>p\<in>set I. isIndexKey (fst p))
            \<and> (\<forall>p\<in>set S. \<not> isIndexKey (fst p))
            \<and> distinct (map fst obj)
            \<and> sorted_wrt (\<lambda>p q. indexOfKey (fst p) < indexOfKey (fst q)) I"
  then obtain I S where d: "obj = I @ S" and i: "\<forall>p\<in>set I. isIndexKey (fst p)"
    and s: "\<forall>p\<in>set S. \<not> isIndexKey (fst p)" and dist: "distinct (map fst obj)"
    and srt: "sorted_wrt (\<lambda>p q. indexOfKey (fst p) < indexOfKey (fst q)) I"
    by blast
  from filter_split [OF i s] have f: "filter (\<lambda>p. isIndexKey (fst p)) obj = I"
    "filter (\<lambda>p. \<not> isIndexKey (fst p)) obj = S" unfolding d by simp_all
  show "propertyOrdered obj"
    unfolding propertyOrdered_def f ownKeys_def using d dist srt by simp
qed

lemma insertProperty_others:
  assumes o: "propertyOrdered obj"
  shows "map fst (filter (\<lambda>p. \<not> isIndexKey (fst p)) (insertProperty k v obj)) =
           map fst (filter (\<lambda>p. \<not> isIndexKey (fst p)) obj)
           @ (if isIndexKey k then [] else [k])"
proof (cases "isIndexKey k")
  case False
  then show ?thesis by (simp add: insertProperty_other)
next
  case True
  let ?Q = "\<lambda>p. isIndexKey (fst p) \<and> indexOfKey (fst p) < indexOfKey k"
  let ?N = "\<lambda>p. \<not> isIndexKey (fst p)"
  have "filter ?N (takeWhile ?Q obj @ (k, v) # dropWhile ?Q obj)
          = filter ?N (takeWhile ?Q obj) @ filter ?N (dropWhile ?Q obj)"
    using True by simp
  also have "\<dots> = filter ?N (takeWhile ?Q obj @ dropWhile ?Q obj)"
    by (simp only: filter_append)
  also have "\<dots> = filter ?N obj"
    by (simp only: takeWhile_dropWhile_id)
  finally have F: "filter ?N (insertProperty k v obj) = filter ?N obj"
    unfolding insertProperty_index [OF True] .
  show ?thesis using True by (simp add: F)
qed

lemma distinct_insert_middle:
  "distinct (xs @ ys) \<Longrightarrow> k \<notin> set (xs @ ys) \<Longrightarrow> distinct (xs @ k # ys)"
  by auto

lemma insertProperty_ordered:
  assumes o: "propertyOrdered obj" and new: "k \<notin> set (ownKeys obj)"
  shows "propertyOrdered (insertProperty k v obj)"
proof -
  from o obtain I S where d: "obj = I @ S" and i: "\<forall>p\<in>set I. isIndexKey (fst p)"
    and s: "\<forall>p\<in>set S. \<not> isIndexKey (fst p)" and dist: "distinct (map fst obj)"
    and srt: "sorted_wrt (\<lambda>p q. indexOfKey (fst p) < indexOfKey (fst q)) I"
    unfolding propertyOrdered_iff by blast
  from new have nk: "k \<notin> set (map fst obj)" by (simp add: ownKeys_def)
  show ?thesis
  proof (cases "isIndexKey k")
    case False
    have r: "insertProperty k v obj = I @ (S @ [(k, v)])"
      using False d by (simp add: insertProperty_other)
    have "\<forall>p\<in>set (S @ [(k, v)]). \<not> isIndexKey (fst p)" using s False by simp
    moreover have "distinct (map fst (I @ (S @ [(k, v)])))"
      using dist nk unfolding d by simp
    ultimately show ?thesis unfolding propertyOrdered_iff r using i srt by blast
  next
    case True
    let ?Q = "\<lambda>p. isIndexKey (fst p) \<and> indexOfKey (fst p) < indexOfKey k"
    let ?R = "\<lambda>p q. indexOfKey (fst p) < indexOfKey (fst q)"
    define A where "A = takeWhile ?Q I"
    define B where "B = dropWhile ?Q I"
    have sf: "\<forall>y\<in>set S. \<not> ?Q y" using s by simp
    have r: "insertProperty k v obj = (A @ (k, v) # B) @ S"
      unfolding insertProperty_index [OF True] d A_def B_def
        takeWhile_append_fail [OF sf] dropWhile_append_fail [OF sf] by simp
    have AB: "A @ B = I" by (simp add: A_def B_def)
    have subA: "p \<in> set A \<Longrightarrow> p \<in> set I \<and> indexOfKey (fst p) < indexOfKey k" for p
      unfolding A_def using set_takeWhileD [of p ?Q I] by blast
    have subB: "p \<in> set B \<Longrightarrow> p \<in> set I" for p
      unfolding B_def by (rule set_dropWhileD)
    have i': "\<forall>p\<in>set (A @ (k, v) # B). isIndexKey (fst p)"
    proof
      fix p assume "p \<in> set (A @ (k, v) # B)"
      then consider "p \<in> set A" | "p = (k, v)" | "p \<in> set B" by auto
      then show "isIndexKey (fst p)"
      proof cases
        case 1
        with subA i show ?thesis by blast
      next
        case 2
        with True show ?thesis by simp
      next
        case 3
        with subB i show ?thesis by blast
      qed
    qed
    have e: "map fst A @ map fst (B @ S) = map fst obj"
      unfolding d AB [symmetric] by simp
    have "distinct (map fst A @ k # map fst (B @ S))"
    proof (rule distinct_insert_middle)
      show "distinct (map fst A @ map fst (B @ S))" unfolding e by (rule dist)
      show "k \<notin> set (map fst A @ map fst (B @ S))" unfolding e by (rule nk)
    qed
    then have dist': "distinct (map fst ((A @ (k, v) # B) @ S))" by simp
    from srt have "sorted_wrt ?R (A @ B)" unfolding AB .
    then have sA: "sorted_wrt ?R A" and sB: "sorted_wrt ?R B"
      and cross: "\<forall>a\<in>set A. \<forall>b\<in>set B. ?R a b"
      unfolding sorted_wrt_append by blast+
    have dq: "B = dropWhile (\<lambda>p. indexOfKey (fst p) < indexOfKey k) I"
      unfolding B_def by (rule dropWhile_cong) (use i in auto)
    have highB: "indexOfKey k < indexOfKey (fst b)" if b: "b \<in> set B" for b
    proof -
      from b have "b \<in> set (dropWhile (\<lambda>p. indexOfKey (fst p) < indexOfKey k) I)"
        unfolding dq .
      with srt have ge: "indexOfKey k \<le> indexOfKey (fst b)"
        by (rule dropWhile_sorted_ge [of "\<lambda>p. indexOfKey (fst p)" I b "indexOfKey k"])
      from b have bI: "b \<in> set I" by (rule subB)
      with i have ib: "isIndexKey (fst b)" by blast
      from bI have "fst b \<in> set (map fst obj)" unfolding d by simp
      with nk have "fst b \<noteq> k" by auto
      with ib True have "indexOfKey (fst b) \<noteq> indexOfKey k"
        using indexOfKey_inj by blast
      with ge show "indexOfKey k < indexOfKey (fst b)" by simp
    qed
    have srt': "sorted_wrt ?R (A @ (k, v) # B)"
      unfolding sorted_wrt_append sorted_wrt.simps
      using sA sB cross subA highB by auto
    show ?thesis unfolding propertyOrdered_iff r using i' s dist' srt' by blast
  qed
qed

lemma propertyOrdered_Nil: "propertyOrdered []"
  by (simp add: propertyOrdered_def ownKeys_def)

lemma addNew_Nil [simp]: "addNew G f obj [] = obj"
  by (simp add: addNew_def)

lemma addNew_Cons:
  "addNew G f obj (k # ks) =
     addNew G f (if G k \<and> k \<notin> set (ownKeys obj) then insertProperty k (f k) obj else obj) ks"
  by (simp add: addNew_def)

lemma addNew_ordered:
  "propertyOrdered obj \<Longrightarrow> propertyOrdered (addNew G f obj ks)"
proof (induction ks arbitrary: obj)
  case Nil
  then show ?case by simp
next
  case (Cons k ks)
  show ?case
  proof (cases "G k \<and> k \<notin> set (ownKeys obj)")
    case True
    then have "propertyOrdered (insertProperty k (f k) obj)"
      using Cons.prems by (simp add: insertProperty_ordered)
    then show ?thesis unfolding addNew_Cons if_P [OF True] by (rule Cons.IH)
  next
    case False
    have "addNew G f obj (k # ks) = addNew G f obj ks"
      unfolding addNew_Cons if_not_P [OF False] ..
    then show ?thesis using Cons by simp
  qed
qed

lemma addNew_set:
  "set (addNew G f obj ks) =
     set obj \<union> {(k, f k) | k. k \<in> set ks \<and> G k \<and> k \<notin> set (ownKeys obj)}"
proof (induction ks arbitrary: obj)
  case Nil
  show ?case by simp
next
  case (Cons k ks)
  show ?case
  proof (cases "G k \<and> k \<notin> set (ownKeys obj)")
    case True
    have "set (addNew G f obj (k # ks)) =
            insert (k, f k) (set obj)
            \<union> {(k', f k') | k'. k' \<in> set ks \<and> G k' \<and> k' \<notin> insert k (set (ownKeys obj))}"
      unfolding addNew_Cons if_P [OF True]
      by (simp add: Cons.IH set_insertProperty ownKeys_insertProperty)
    also have "\<dots> = set obj
       \<union> {(k', f k') | k'. k' \<in> set (k # ks) \<and> G k' \<and> k' \<notin> set (ownKeys obj)}"
      using True by auto
    finally show ?thesis .
  next
    case False
    have "set (addNew G f obj (k # ks)) =
            set obj \<union> {(k', f k') | k'. k' \<in> set ks \<and> G k' \<and> k' \<notin> set (ownKeys obj)}"
      unfolding addNew_Cons if_not_P [OF False] by (rule Cons.IH)
    also have "\<dots> = set obj
       \<union> {(k', f k') | k'. k' \<in> set (k # ks) \<and> G k' \<and> k' \<notin> set (ownKeys obj)}"
      using False by auto
    finally show ?thesis .
  qed
qed

lemma addNew_keys:
  "set (ownKeys (addNew G f obj ks)) =
     set (ownKeys obj) \<union> {k \<in> set ks. G k}"
proof -
  have "set (ownKeys (addNew G f obj ks)) = fst ` set (addNew G f obj ks)"
    by (simp add: ownKeys_def)
  also have "\<dots> = fst ` set obj
       \<union> fst ` {(k, f k) | k. k \<in> set ks \<and> G k \<and> k \<notin> set (ownKeys obj)}"
    unfolding addNew_set by (rule image_Un)
  also have "fst ` {(k, f k) | k. k \<in> set ks \<and> G k \<and> k \<notin> set (ownKeys obj)}
       = {k \<in> set ks. G k \<and> k \<notin> set (ownKeys obj)}"
    by (auto simp: image_iff)
  also have "fst ` set obj = set (ownKeys obj)" by (simp add: ownKeys_def)
  finally show ?thesis by auto
qed

lemma addNew_others:
  "propertyOrdered obj \<Longrightarrow>
     map fst (filter (\<lambda>p. \<not> isIndexKey (fst p)) (addNew G f obj ks)) =
       map fst (filter (\<lambda>p. \<not> isIndexKey (fst p)) obj)
       @ firstOccurrences
           (filter (\<lambda>k. G k \<and> \<not> isIndexKey k \<and> k \<notin> set (ownKeys obj)) ks)"
proof (induction ks arbitrary: obj)
  case Nil
  show ?case by simp
next
  case (Cons k ks)
  let ?phi = "\<lambda>k. G k \<and> \<not> isIndexKey k \<and> k \<notin> set (ownKeys obj)"
  show ?case
  proof (cases "G k \<and> k \<notin> set (ownKeys obj)")
    case False
    then have "\<not> ?phi k" by blast
    then have e: "filter ?phi (k # ks) = filter ?phi ks" by simp
    show ?thesis unfolding addNew_Cons if_not_P [OF False] e
      by (rule Cons.IH [OF Cons.prems])
  next
    case True
    let ?obj' = "insertProperty k (f k) obj"
    let ?phi' = "\<lambda>k'. G k' \<and> \<not> isIndexKey k' \<and> k' \<notin> set (ownKeys ?obj')"
    have o': "propertyOrdered ?obj'" using True Cons.prems by (simp add: insertProperty_ordered)
    have p': "?phi' = (\<lambda>k'. ?phi k' \<and> k' \<noteq> k)"
      by (auto simp: fun_eq_iff ownKeys_insertProperty)
    have step: "map fst (filter (\<lambda>p. \<not> isIndexKey (fst p)) (addNew G f obj (k # ks))) =
       (map fst (filter (\<lambda>p. \<not> isIndexKey (fst p)) obj) @ (if isIndexKey k then [] else [k]))
       @ firstOccurrences (filter (\<lambda>k'. ?phi k' \<and> k' \<noteq> k) ks)"
      unfolding addNew_Cons if_P [OF True] Cons.IH [OF o'] p'
        insertProperty_others [OF Cons.prems, of k "f k"] ..
    show ?thesis
    proof (cases "isIndexKey k")
      case False
      with True have "?phi k" by blast
      then have "firstOccurrences (filter ?phi (k # ks))
                   = k # firstOccurrences (filter (\<lambda>k'. ?phi k' \<and> k' \<noteq> k) ks)"
        by (simp add: conj_commute)
      with step False show ?thesis by simp
    next
      case ik: True
      then have "\<not> ?phi k" by blast
      then have a: "filter ?phi (k # ks) = filter ?phi ks" by simp
      have b: "filter (\<lambda>k'. ?phi k' \<and> k' \<noteq> k) ks = filter ?phi ks"
        by (rule filter_cong) (use ik in auto)
      from step ik show ?thesis unfolding a b by simp
    qed
  qed
qed

lemma addNew_cong:
  assumes "\<And>k. k \<in> set ks \<Longrightarrow> G k = G' k"
    and "\<And>k. k \<in> set ks \<Longrightarrow> G k \<Longrightarrow> f k = f' k"
  shows "addNew G f obj ks = addNew G' f' obj ks"
  unfolding addNew_def
  by (rule foldl_cong) (use assms in auto)

lemma propertyOrdered_unique:
  assumes a: "propertyOrdered a" and b: "propertyOrdered b"
    and eq: "set a = set b"
    and others: "map fst (filter (\<lambda>p. \<not> isIndexKey (fst p)) a)
                   = map fst (filter (\<lambda>p. \<not> isIndexKey (fst p)) b)"
  shows "a = b"
proof -
  let ?idx = "\<lambda>p::string \<times> 'a. isIndexKey (fst p)"
  let ?g = "\<lambda>p::string \<times> 'a. indexOfKey (fst p)"
  define Ia where "Ia = filter ?idx a"
  define Ib where "Ib = filter ?idx b"
  define Sa where "Sa = filter (\<lambda>p. \<not> ?idx p) a"
  define Sb where "Sb = filter (\<lambda>p. \<not> ?idx p) b"
  from a have da: "a = Ia @ Sa" and dist: "distinct (map fst a)"
    and sa: "sorted_wrt (\<lambda>p q. ?g p < ?g q) Ia"
    unfolding propertyOrdered_def ownKeys_def Ia_def Sa_def by blast+
  from b have db: "b = Ib @ Sb"
    and sb: "sorted_wrt (\<lambda>p q. ?g p < ?g q) Ib"
    unfolding propertyOrdered_def ownKeys_def Ib_def Sb_def by blast+
  from dist have inj: "inj_on fst (set a)" by (simp add: distinct_map)
  have subS: "set Sa \<union> set Sb \<subseteq> set a" unfolding Sa_def Sb_def using eq by auto
  have subI: "set Ia \<union> set Ib \<subseteq> {p \<in> set a. ?idx p}"
    unfolding Ia_def Ib_def using eq by auto
  have S: "Sa = Sb"
  proof -
    have "inj_on fst (set Sa \<union> set Sb)" using inj subS by (rule inj_on_subset)
    moreover have "map fst Sa = map fst Sb" using others unfolding Sa_def Sb_def .
    ultimately show ?thesis by (simp add: inj_on_map_eq_map)
  qed
  have I: "Ia = Ib"
  proof -
    have ginj: "inj_on ?g {p \<in> set a. ?idx p}"
    proof (rule inj_onI)
      fix p q
      assume p: "p \<in> {p \<in> set a. ?idx p}" and q: "q \<in> {p \<in> set a. ?idx p}"
        and e: "?g p = ?g q"
      then have "fst p = fst q" using indexOfKey_inj [of "fst p" "fst q"] by simp
      with inj p q show "p = q" by (auto dest: inj_onD)
    qed
    then have gi: "inj_on ?g (set Ia \<union> set Ib)" using subI by (rule inj_on_subset)
    have "sorted_wrt (<) (map ?g Ia)" using sa by (simp add: sorted_wrt_map)
    then have 1: "sorted (map ?g Ia)" "distinct (map ?g Ia)"
      by (simp_all add: strict_sorted_iff)
    have "sorted_wrt (<) (map ?g Ib)" using sb by (simp add: sorted_wrt_map)
    then have 2: "sorted (map ?g Ib)" "distinct (map ?g Ib)"
      by (simp_all add: strict_sorted_iff)
    have "set Ia = set Ib" unfolding Ia_def Ib_def using eq by simp
    then have 3: "set (map ?g Ia) = set (map ?g Ib)" by simp
    have "map ?g Ia = map ?g Ib"
      by (rule sorted_distinct_set_unique [OF 1(1) 1(2) 2(1) 2(2) 3])
    with gi show ?thesis by (simp add: inj_on_map_eq_map)
  qed
  show ?thesis unfolding da db S I ..
qed

lemma hasProperty_iff:
  "hasProperty obj k = (k \<in> set (ownKeys obj) \<or> k \<in> set objectPrototypeKeys)"
  by (simp add: hasProperty_def)

lemma getProperty_own:
  "distinct (map fst obj) \<Longrightarrow> (k, v) \<in> set obj \<Longrightarrow> getProperty obj k = v"
  by (simp add: getProperty_def)

lemma getProperty_map_of:
  "k \<in> set (ownKeys obj) \<Longrightarrow> map_of obj k = Some (getProperty obj k)"
proof -
  assume "k \<in> set (ownKeys obj)"
  then have "k \<in> fst ` set obj" by (simp add: ownKeys_def)
  then obtain v where "map_of obj k = Some v"
    by (metis domD dom_map_of_conv_image_fst)
  then show ?thesis by (simp add: getProperty_def)
qed

section \<open>The two loops of the normalizer\<close>

lemma addNew_append:
  "addNew G f obj (xs @ ys) = addNew G f (addNew G f obj xs) ys"
  by (simp add: addNew_def)

lemma addNew_filter:
  "addNew (\<lambda>k. G k \<and> Q k) f obj ks = addNew G f obj (filter Q ks)"
proof (induction ks arbitrary: obj)
  case Nil
  show ?case by simp
next
  case (Cons k ks)
  show ?case
  proof (cases "Q k")
    case True
    then show ?thesis by (simp add: addNew_Cons Cons.IH)
  next
    case False
    then show ?thesis by (simp add: addNew_Cons Cons.IH)
  qed
qed

lemma proto_in_keys: "''__proto__'' \<in> set objectPrototypeKeys"
  by (simp add: objectPrototypeKeys_def)

lemma setterInherited_chain:
  "setterInherited P \<Longrightarrow> k \<in> set objectPrototypeKeys \<Longrightarrow> inChain P k"
  by (cases P) (simp_all add: hasProperty_def)

lemma prototypeSetter_twice:
  "prototypeSetter v (prototypeSetter v P) = prototypeSetter v P"
  by (cases v) simp_all

lemma setProperty_same:
  assumes "\<forall>p\<in>set (properties obj). snd p = f (fst p)"
    and "k \<in> set (ownKeys (properties obj))"
  shows "setProperty k (f k) obj = obj"
proof -
  have "map (\<lambda>(k', v'). if k' = k then (k', f k) else (k', v')) (properties obj)
          = properties obj"
    by (rule map_idI) (use assms(1) in auto)
  with assms(2) show ?thesis by (simp add: setProperty_def)
qed

lemma setProperty_create:
  "k \<notin> set (ownKeys (properties obj)) \<Longrightarrow>
   k \<noteq> ''__proto__'' \<or> \<not> setterInherited (prototype obj) \<Longrightarrow>
     setProperty k v obj = obj\<lparr> properties := insertProperty k v (properties obj) \<rparr>"
  by (auto simp: setProperty_def)

lemma setProperty_setter:
  "''__proto__'' \<notin> set (ownKeys (properties obj)) \<Longrightarrow> setterInherited (prototype obj) \<Longrightarrow>
     setProperty ''__proto__'' v obj = obj\<lparr> prototype := prototypeSetter v (prototype obj) \<rparr>"
  by (simp add: setProperty_def)

text \<open>A stretch of the first loop in which every assignment to a name not yet owned creates
  the property.\<close>

lemma listed_loop_create:
  assumes "\<forall>p\<in>set (properties obj). snd p = f (fst p)"
    and "''__proto__'' \<notin> set ps \<or> \<not> setterInherited (prototype obj)"
  shows "foldl (\<lambda>acc prop. if H prop then setProperty prop (f prop) acc else acc) obj ps
           = obj\<lparr> properties := addNew H f (properties obj) ps \<rparr>"
  using assms
proof (induction ps arbitrary: obj)
  case Nil
  show ?case by simp
next
  case (Cons p ps)
  let ?step = "\<lambda>acc prop. if H prop then setProperty prop (f prop) acc else acc"
  from Cons.prems(2)
  have rest: "\<And>o'. prototype o' = prototype obj \<Longrightarrow>
                ''__proto__'' \<notin> set ps \<or> \<not> setterInherited (prototype o')"
    and here: "p \<noteq> ''__proto__'' \<or> \<not> setterInherited (prototype obj)"
    by auto
  show ?case
  proof (cases "H p \<and> p \<notin> set (ownKeys (properties obj))")
    case True
    let ?obj' = "obj\<lparr> properties := insertProperty p (f p) (properties obj) \<rparr>"
    from True here have e: "?step obj p = ?obj'" by (simp add: setProperty_create)
    have inv: "\<forall>q\<in>set (properties ?obj'). snd q = f (fst q)"
      using Cons.prems(1) by (auto simp: set_insertProperty)
    have "foldl ?step obj (p # ps) = foldl ?step ?obj' ps" using e by simp
    also have "\<dots> = ?obj'\<lparr> properties := addNew H f (properties ?obj') ps \<rparr>"
      by (rule Cons.IH [OF inv rest]) simp
    also have "\<dots> = obj\<lparr> properties := addNew H f (properties obj) (p # ps) \<rparr>"
      unfolding addNew_Cons if_P [OF True] by simp
    finally show ?thesis .
  next
    case False
    have e: "?step obj p = obj"
    proof (cases "H p")
      case False
      then show ?thesis by simp
    next
      case h: True
      with False have "p \<in> set (ownKeys (properties obj))" by blast
      with h show ?thesis using setProperty_same [OF Cons.prems(1)] by simp
    qed
    have "foldl ?step obj (p # ps) = foldl ?step obj ps" using e by simp
    also have "\<dots> = obj\<lparr> properties := addNew H f (properties obj) ps \<rparr>"
      by (rule Cons.IH [OF Cons.prems(1) rest]) simp
    also have "\<dots> = obj\<lparr> properties := addNew H f (properties obj) (p # ps) \<rparr>"
      unfolding addNew_Cons if_not_P [OF False] ..
    finally show ?thesis .
  qed
qed

text \<open>A stretch of the first loop in which the name \<^verbatim>\<open>__proto__\<close> runs the setter, with the
  value that is installed already.\<close>

lemma listed_loop_setter:
  assumes "\<forall>p\<in>set (properties obj). snd p = f (fst p)"
    and "''__proto__'' \<notin> set (ownKeys (properties obj))"
    and "setterInherited (prototype obj)"
    and "prototypeSetter (f ''__proto__'') (prototype obj) = prototype obj"
  shows "foldl (\<lambda>acc prop. if H prop then setProperty prop (f prop) acc else acc) obj ps
           = obj\<lparr> properties :=
                    addNew (\<lambda>p. H p \<and> p \<noteq> ''__proto__'') f (properties obj) ps \<rparr>"
  using assms
proof (induction ps arbitrary: obj)
  case Nil
  show ?case by simp
next
  case (Cons p ps)
  let ?step = "\<lambda>acc prop. if H prop then setProperty prop (f prop) acc else acc"
  let ?G = "\<lambda>p. H p \<and> p \<noteq> ''__proto__''"
  show ?case
  proof (cases "?G p \<and> p \<notin> set (ownKeys (properties obj))")
    case True
    let ?obj' = "obj\<lparr> properties := insertProperty p (f p) (properties obj) \<rparr>"
    from True have e: "?step obj p = ?obj'" by (simp add: setProperty_create)
    have inv: "\<forall>q\<in>set (properties ?obj'). snd q = f (fst q)"
      using Cons.prems(1) by (auto simp: set_insertProperty)
    have np: "''__proto__'' \<notin> set (ownKeys (properties ?obj'))"
      using True Cons.prems(2) by (auto simp: ownKeys_insertProperty)
    have si: "setterInherited (prototype ?obj')" using Cons.prems(3) by simp
    have ps: "prototypeSetter (f ''__proto__'') (prototype ?obj') = prototype ?obj'"
      using Cons.prems(4) by simp
    have "foldl ?step obj (p # ps) = foldl ?step ?obj' ps" using e by simp
    also have "\<dots> = ?obj'\<lparr> properties := addNew ?G f (properties ?obj') ps \<rparr>"
      by (rule Cons.IH [OF inv np si ps])
    also have "\<dots> = obj\<lparr> properties := addNew ?G f (properties obj) (p # ps) \<rparr>"
      unfolding addNew_Cons if_P [OF True] by simp
    finally show ?thesis .
  next
    case False
    have e: "?step obj p = obj"
    proof (cases "H p")
      case False
      then show ?thesis by simp
    next
      case h: True
      show ?thesis
      proof (cases "p = ''__proto__''")
        case True
        have "setProperty ''__proto__'' (f ''__proto__'') obj
                = obj\<lparr> prototype := prototypeSetter (f ''__proto__'') (prototype obj) \<rparr>"
          by (rule setProperty_setter [OF Cons.prems(2,3)])
        also have "\<dots> = obj" unfolding Cons.prems(4) by simp
        finally show ?thesis using True h by simp
      next
        case np: False
        with h False have "p \<in> set (ownKeys (properties obj))" by blast
        with h show ?thesis using setProperty_same [OF Cons.prems(1)] by simp
      qed
    qed
    have "foldl ?step obj (p # ps) = foldl ?step obj ps" using e by simp
    also have "\<dots> = obj\<lparr> properties := addNew ?G f (properties obj) ps \<rparr>"
      by (rule Cons.IH [OF Cons.prems])
    also have "\<dots> = obj\<lparr> properties := addNew ?G f (properties obj) (p # ps) \<rparr>"
      unfolding addNew_Cons if_not_P [OF False] ..
    finally show ?thesis .
  qed
qed

text \<open>The second loop creates properties only and leaves the prototype as it is.\<close>

lemma remaining_loop:
  "foldl (\<lambda>acc prop. if \<not> inObject acc prop then setProperty prop (f prop) acc else acc)
       obj ks
     = obj\<lparr> properties :=
              addNew (\<lambda>k. \<not> inChain (prototype obj) k) f (properties obj) ks \<rparr>"
proof (induction ks arbitrary: obj)
  case Nil
  show ?case by simp
next
  case (Cons k ks)
  let ?step = "\<lambda>acc prop. if \<not> inObject acc prop then setProperty prop (f prop) acc else acc"
  let ?G = "\<lambda>k. \<not> inChain (prototype obj) k"
  show ?case
  proof (cases "?G k \<and> k \<notin> set (ownKeys (properties obj))")
    case True
    let ?obj' = "obj\<lparr> properties := insertProperty k (f k) (properties obj) \<rparr>"
    from True have "k \<noteq> ''__proto__'' \<or> \<not> setterInherited (prototype obj)"
      using setterInherited_chain [OF _ proto_in_keys, of "prototype obj"] by blast
    with True have e: "?step obj k = ?obj'"
      by (simp add: inObject_def setProperty_create)
    have "foldl ?step obj (k # ks) = foldl ?step ?obj' ps" if "ps = ks" for ps
      using e that by simp
    then have "foldl ?step obj (k # ks) = foldl ?step ?obj' ks" by simp
    also have "\<dots> = ?obj'\<lparr> properties :=
                  addNew (\<lambda>k. \<not> inChain (prototype ?obj') k) f (properties ?obj') ks \<rparr>"
      by (rule Cons.IH)
    also have "\<dots> = obj\<lparr> properties := addNew ?G f (properties obj) (k # ks) \<rparr>"
      unfolding addNew_Cons if_P [OF True] by simp
    finally show ?thesis .
  next
    case False
    then have "inObject obj k" by (auto simp: inObject_def)
    then have e: "?step obj k = obj" by simp
    have "foldl ?step obj (k # ks) = foldl ?step obj ks" using e by simp
    also have "\<dots> = obj\<lparr> properties := addNew ?G f (properties obj) ks \<rparr>" by (rule Cons.IH)
    also have "\<dots> = obj\<lparr> properties := addNew ?G f (properties obj) (k # ks) \<rparr>"
      unfolding addNew_Cons if_not_P [OF False] ..
    finally show ?thesis .
  qed
qed

lemma hasProperty_proto: "hasProperty m ''__proto__''"
  by (simp add: hasProperty_def proto_in_keys)

lemma listed_loop:
  fixes m :: "'v jsval jsobj"
  defines "H \<equiv> hasProperty m" and "f \<equiv> getProperty m"
  shows "foldl (\<lambda>acc prop. if H prop then setProperty prop (f prop) acc else acc)
           \<lparr> properties = [], prototype = ObjectPrototype \<rparr> order
         = \<lparr> properties = addNew H f [] (listedOrder order m),
             prototype = finalPrototype order m \<rparr>"
proof (cases "''__proto__'' \<in> set order")
  case False
  let ?step = "\<lambda>acc prop. if H prop then setProperty prop (f prop) acc else acc"
  let ?o = "\<lparr> properties = [], prototype = ObjectPrototype \<rparr> :: 'v jsobject"
  have fp: "finalPrototype order m = ObjectPrototype"
    using False by (simp add: finalPrototype_def)
  have "filter (\<lambda>p. p \<noteq> ''__proto__'') order = order"
    using False by (auto simp: filter_id_conv)
  then have lo: "listedOrder order m = order" by (simp add: listedOrder_def fp)
  have "foldl ?step ?o order = ?o\<lparr> properties := addNew H f (properties ?o) order \<rparr>"
    by (rule listed_loop_create) (use False in simp_all)
  then show ?thesis unfolding fp lo by simp
next
  case True
  let ?step = "\<lambda>acc prop. if H prop then setProperty prop (f prop) acc else acc"
  let ?o = "\<lparr> properties = [], prototype = ObjectPrototype \<rparr> :: 'v jsobject"
  let ?P = "prototypeSetter (f ''__proto__'') ObjectPrototype"
  from True obtain as bs where order: "order = as @ ''__proto__'' # bs"
    and nas: "''__proto__'' \<notin> set as"
    by (auto dest: split_list_first)
  have fp: "finalPrototype order m = ?P"
    using True by (simp add: finalPrototype_def f_def)
  define L where "L = addNew H f [] as"
  have kL: "set (ownKeys L) \<subseteq> set as"
    unfolding L_def addNew_keys by (auto simp: ownKeys_def)
  have vL: "\<forall>p\<in>set L. snd p = f (fst p)"
    unfolding L_def addNew_set by auto
  have 1: "foldl ?step ?o as = \<lparr> properties = L, prototype = ObjectPrototype \<rparr>"
  proof -
    have "foldl ?step ?o as = ?o\<lparr> properties := addNew H f (properties ?o) as \<rparr>"
      by (rule listed_loop_create) (use nas in simp_all)
    then show ?thesis by (simp add: L_def)
  qed
  have npL: "''__proto__'' \<notin> set (ownKeys L)" using kL nas by blast
  have 2: "?step \<lparr> properties = L, prototype = ObjectPrototype \<rparr> ''__proto__''
             = \<lparr> properties = L, prototype = ?P \<rparr>"
  proof -
    have "setProperty ''__proto__'' (f ''__proto__'')
             \<lparr> properties = L, prototype = ObjectPrototype \<rparr>
          = \<lparr> properties = L, prototype = ObjectPrototype \<rparr>
              \<lparr> prototype := prototypeSetter (f ''__proto__'')
                   (prototype \<lparr> properties = L, prototype = ObjectPrototype \<rparr>) \<rparr>"
      by (rule setProperty_setter) (use npL in simp_all)
    then show ?thesis by (simp add: H_def hasProperty_proto)
  qed
  have start: "foldl ?step ?o order = foldl ?step \<lparr> properties = L, prototype = ?P \<rparr> bs"
    unfolding order foldl_append foldl_Cons 1 2 ..
  show ?thesis
  proof (cases "setterInherited ?P")
    case si: True
    let ?q = "\<lparr> properties = L, prototype = ?P \<rparr>"
    have "foldl ?step ?q bs
            = ?q\<lparr> properties :=
                     addNew (\<lambda>p. H p \<and> p \<noteq> ''__proto__'') f (properties ?q) bs \<rparr>"
      by (rule listed_loop_setter) (use vL npL si in \<open>simp_all add: prototypeSetter_twice\<close>)
    then have 3: "foldl ?step ?q bs
            = \<lparr> properties = addNew H f L (filter (\<lambda>p. p \<noteq> ''__proto__'') bs),
                prototype = ?P \<rparr>"
      by (simp add: addNew_filter)
    have fa: "filter (\<lambda>p. p \<noteq> ''__proto__'') as = as"
      using nas by (auto simp: filter_id_conv)
    from si have "listedOrder order m = filter (\<lambda>p. p \<noteq> ''__proto__'') order"
      by (simp add: listedOrder_def fp)
    then have lo: "listedOrder order m = as @ filter (\<lambda>p. p \<noteq> ''__proto__'') bs"
      unfolding order by (simp add: fa)
    have "foldl ?step ?o order
            = \<lparr> properties = addNew H f [] (as @ filter (\<lambda>p. p \<noteq> ''__proto__'') bs),
                prototype = ?P \<rparr>"
      using start 3 by (simp add: addNew_append L_def)
    then show ?thesis unfolding lo fp .
  next
    case nsi: False
    let ?q = "\<lparr> properties = L, prototype = ?P \<rparr>"
    have "foldl ?step ?q bs = ?q\<lparr> properties := addNew H f (properties ?q) bs \<rparr>"
      by (rule listed_loop_create) (use vL nsi in simp_all)
    then have 3: "foldl ?step ?q bs = \<lparr> properties = addNew H f L bs, prototype = ?P \<rparr>"
      by simp
    from nsi have "listedOrder order m = remove1 ''__proto__'' order"
      by (simp add: listedOrder_def fp)
    then have lo: "listedOrder order m = as @ bs"
      unfolding order using nas by (simp add: remove1_append)
    have "foldl ?step ?o order
            = \<lparr> properties = addNew H f [] (as @ bs), prototype = ?P \<rparr>"
      using start 3 by (simp add: addNew_append L_def)
    then show ?thesis unfolding lo fp .
  qed
qed

lemma sortedDataOf_normalForm:
  "sortedDataOf order m
     = normalForm (listedOrder order m) (inChain (finalPrototype order m)) m"
  unfolding sortedDataOf_def Let_def listed_loop remaining_loop normalForm_def by simp

text \<open>What the two loops build, for any list of listed names and any set of hidden names.\<close>

lemma normalForm_facts:
  fixes ks :: "string list" and m :: "'v jsval jsobj"
  defines "listed \<equiv> addNew (hasProperty m) (getProperty m) [] ks"
  shows "normalForm ks V m = addNew (\<lambda>k. \<not> V k) (getProperty m) listed (ownKeys m)"
    and "propertyOrdered listed"
    and "propertyOrdered (normalForm ks V m)"
    and "set (ownKeys listed) = {p \<in> set ks. hasProperty m p}"
    and "set (ownKeys (normalForm ks V m)) =
           {p \<in> set ks. hasProperty m p} \<union> {k \<in> set (ownKeys m). \<not> V k}"
    and "\<forall>p\<in>set (normalForm ks V m). snd p = getProperty m (fst p)"
    and "map fst (filter (\<lambda>p. \<not> isIndexKey (fst p)) (normalForm ks V m)) =
           firstOccurrences (filter (\<lambda>p. hasProperty m p \<and> \<not> isIndexKey p) ks)
           @ firstOccurrences
               (filter (\<lambda>k. \<not> V k \<and> \<not> isIndexKey k \<and> k \<notin> set (ownKeys listed))
                  (ownKeys m))"
proof -
  show eq: "normalForm ks V m = addNew (\<lambda>k. \<not> V k) (getProperty m) listed (ownKeys m)"
    unfolding listed_def normalForm_def ..
  show ol: "propertyOrdered listed"
    unfolding listed_def by (rule addNew_ordered [OF propertyOrdered_Nil])
  show "propertyOrdered (normalForm ks V m)"
    unfolding eq by (rule addNew_ordered [OF ol])
  show kl: "set (ownKeys listed) = {p \<in> set ks. hasProperty m p}"
    unfolding listed_def addNew_keys by (simp add: ownKeys_def)
  show "set (ownKeys (normalForm ks V m)) =
           {p \<in> set ks. hasProperty m p} \<union> {k \<in> set (ownKeys m). \<not> V k}"
    unfolding eq addNew_keys kl ..
  have sl: "\<forall>p\<in>set listed. snd p = getProperty m (fst p)"
    unfolding listed_def addNew_set by auto
  show "\<forall>p\<in>set (normalForm ks V m). snd p = getProperty m (fst p)"
    unfolding eq addNew_set using sl by auto
  have "map fst (filter (\<lambda>p. \<not> isIndexKey (fst p)) listed) =
          firstOccurrences (filter (\<lambda>p. hasProperty m p \<and> \<not> isIndexKey p) ks)"
    unfolding listed_def addNew_others [OF propertyOrdered_Nil]
    by (simp add: ownKeys_def)
  then show "map fst (filter (\<lambda>p. \<not> isIndexKey (fst p)) (normalForm ks V m)) =
           firstOccurrences (filter (\<lambda>p. hasProperty m p \<and> \<not> isIndexKey p) ks)
           @ firstOccurrences
               (filter (\<lambda>k. \<not> V k \<and> \<not> isIndexKey k \<and> k \<notin> set (ownKeys listed))
                  (ownKeys m))"
    unfolding eq addNew_others [OF ol] by simp
qed

lemma normalForm_value:
  assumes "k \<in> set (ownKeys (normalForm ks V m))"
  shows "getProperty (normalForm ks V m) k = getProperty m k"
proof -
  let ?N = "normalForm ks V m"
  from normalForm_facts(3) [of ks V m] have dN: "distinct (map fst ?N)"
    by (simp add: propertyOrdered_def ownKeys_def)
  from assms obtain v where kv: "(k, v) \<in> set ?N" by (auto simp: ownKeys_def)
  with normalForm_facts(6) [of ks V m] have "v = getProperty m k" by auto
  with kv dN show ?thesis by (simp add: getProperty_own)
qed

text \<open>Built again from its own result, with the same listed names and no more names
  hidden, the object is the same.\<close>

lemma normalForm_idem:
  fixes ks :: "string list" and m :: "'v jsval jsobj"
  assumes sub: "\<And>k. V' k \<Longrightarrow> V k"
  shows "normalForm ks V' (normalForm ks V m) = normalForm ks V m"
proof -
  let ?N = "normalForm ks V m"
  let ?nidx = "\<lambda>p::string \<times> 'v jsval. \<not> isIndexKey (fst p)"
  define f where "f = getProperty m"
  define f' where "f' = getProperty ?N"
  define s1 where "s1 = addNew (hasProperty m) f [] ks"
  note facts = normalForm_facts [where ks = ks and m = m, folded f_def, folded s1_def]
  note N = facts(1) and os1 = facts(2) and oN = facts(3) and ks1 = facts(4)
    and kN = facts(5) and vN = facts(6) and othersN = facts(7)
  have val: "f' k = f k" if "k \<in> set (ownKeys ?N)" for k
    unfolding f'_def f_def using that by (rule normalForm_value)
  have g1: "hasProperty ?N k = hasProperty m k" if "k \<in> set ks" for k
    using that unfolding hasProperty_iff kN by auto
  have in1: "k \<in> set (ownKeys ?N)" if "k \<in> set ks" "hasProperty m k" for k
    using that unfolding kN by auto
  have l1: "addNew (hasProperty ?N) f' [] ks = s1"
    unfolding s1_def
  proof (rule addNew_cong)
    fix k assume k: "k \<in> set ks"
    then show "hasProperty ?N k = hasProperty m k" by (rule g1)
    assume "hasProperty ?N k"
    with k have "hasProperty m k" by (simp add: g1)
    with k show "f' k = f k" by (intro val in1)
  qed
  have l2: "addNew (\<lambda>k. \<not> V' k) f' s1 (ownKeys ?N) = addNew (\<lambda>k. \<not> V' k) f s1 (ownKeys ?N)"
    by (rule addNew_cong) (simp_all add: val)
  have again: "normalForm ks V' ?N = addNew (\<lambda>k. \<not> V' k) f s1 (ownKeys ?N)"
    unfolding normalForm_def [of ks V' ?N] f'_def [symmetric] l1 l2 ..
  define phi where "phi = (\<lambda>k. \<not> V k \<and> \<not> isIndexKey k \<and> k \<notin> set (ownKeys s1))"
  define phi' where "phi' = (\<lambda>k. \<not> V' k \<and> \<not> isIndexKey k \<and> k \<notin> set (ownKeys s1))"
  define X where "X = map fst (filter ?nidx s1)"
  define T where "T = firstOccurrences (filter phi (ownKeys m))"
  have pp: "phi k \<Longrightarrow> phi' k" for k unfolding phi_def phi'_def using sub by blast
  have oth: "map fst (filter ?nidx ?N) = X @ T"
    unfolding N addNew_others [OF os1] X_def T_def phi_def ..
  have split: "ownKeys ?N = map fst (filter (\<lambda>p. isIndexKey (fst p)) ?N) @ (X @ T)"
  proof -
    from oN have "?N = filter (\<lambda>p. isIndexKey (fst p)) ?N @ filter ?nidx ?N"
      unfolding propertyOrdered_def by blast
    then have "map fst ?N = map fst (filter (\<lambda>p. isIndexKey (fst p)) ?N @ filter ?nidx ?N)"
      by simp
    then show ?thesis unfolding ownKeys_def map_append oth .
  qed
  have fI: "filter phi' (map fst (filter (\<lambda>p. isIndexKey (fst p)) ?N)) = []"
    by (auto simp: filter_empty_conv phi'_def)
  have fX: "filter phi' X = []"
    by (auto simp: filter_empty_conv phi'_def X_def ownKeys_def)
  have fT: "filter phi' T = T"
    unfolding filter_id_conv T_def using pp by simp
  have fk: "filter phi' (ownKeys ?N) = T"
    unfolding split filter_append fI fX fT by simp
  have TT: "firstOccurrences T = T"
    by (rule firstOccurrences_id) (simp add: T_def)
  have "addNew (\<lambda>k. \<not> V' k) f s1 (ownKeys ?N) = ?N"
  proof (rule propertyOrdered_unique)
    show "propertyOrdered (addNew (\<lambda>k. \<not> V' k) f s1 (ownKeys ?N))"
      by (rule addNew_ordered [OF os1])
    show "propertyOrdered ?N" by (rule oN)
    have "{k \<in> set (ownKeys ?N). \<not> V' k \<and> k \<notin> set (ownKeys s1)}
            = {k \<in> set (ownKeys m). \<not> V k \<and> k \<notin> set (ownKeys s1)}"
      unfolding kN ks1 using sub by auto
    then have "{(k, f k) | k. k \<in> set (ownKeys ?N) \<and> \<not> V' k \<and> k \<notin> set (ownKeys s1)}
            = {(k, f k) | k. k \<in> set (ownKeys m) \<and> \<not> V k \<and> k \<notin> set (ownKeys s1)}"
      by blast
    then have "set (addNew (\<lambda>k. \<not> V' k) f s1 (ownKeys ?N))
                 = set (addNew (\<lambda>k. \<not> V k) f s1 (ownKeys m))"
      unfolding addNew_set by simp
    then show "set (addNew (\<lambda>k. \<not> V' k) f s1 (ownKeys ?N)) = set ?N" unfolding N .
    have "map fst (filter ?nidx (addNew (\<lambda>k. \<not> V' k) f s1 (ownKeys ?N)))
            = X @ firstOccurrences T"
      unfolding addNew_others [OF os1] X_def [symmetric] phi'_def [symmetric] fk ..
    then show "map fst (filter ?nidx (addNew (\<lambda>k. \<not> V' k) f s1 (ownKeys ?N)))
                 = map fst (filter ?nidx ?N)"
      unfolding TT oth .
  qed
  with again show ?thesis by simp
qed

lemma filter_remove1_once:
  "x \<notin> set (remove1 x xs) \<Longrightarrow> filter (\<lambda>y. y \<noteq> x) xs = remove1 x xs"
proof (induction xs)
  case Nil
  show ?case by simp
next
  case (Cons a xs)
  show ?case
  proof (cases "a = x")
    case True
    with Cons.prems have "x \<notin> set xs" by simp
    then have "filter (\<lambda>y. y \<noteq> x) xs = xs" by (auto simp: filter_id_conv)
    with True show ?thesis by simp
  next
    case False
    with Cons show ?thesis by simp
  qed
qed

lemma getProperty_absent:
  "k \<notin> set (ownKeys obj) \<Longrightarrow> getProperty obj k = Inherited k"
proof -
  assume "k \<notin> set (ownKeys obj)"
  then have "map_of obj k = None" by (simp add: ownKeys_def map_of_eq_None_iff)
  then show ?thesis by (simp add: getProperty_def)
qed

lemma getProperty_not_inherited:
  "getProperty obj k \<noteq> Inherited k \<Longrightarrow> k \<in> set (ownKeys obj)"
  using getProperty_absent by blast

text \<open>The second run sees the prototype the first run installed, or the plain one, and
  lists the same names.\<close>

lemma second_run:
  fixes order :: "string list" and m :: "'v jsval jsobj"
  defines "R \<equiv> sortedDataOf order m"
  shows "listedOrder order R = listedOrder order m"
    and "inChain (finalPrototype order R) k \<Longrightarrow> inChain (finalPrototype order m) k"
proof -
  let ?p = "''__proto__''"
  let ?P = "finalPrototype order m"
  have R: "R = normalForm (listedOrder order m) (inChain ?P) m"
    unfolding R_def by (rule sortedDataOf_normalForm)
  have kR: "set (ownKeys R) =
              {p \<in> set (listedOrder order m). hasProperty m p}
              \<union> {k \<in> set (ownKeys m). \<not> inChain ?P k}"
    unfolding R by (rule normalForm_facts(5))
  have both: "listedOrder order R = listedOrder order m
              \<and> (inChain (finalPrototype order R) k \<longrightarrow> inChain ?P k)"
  proof (cases "?p \<in> set order")
    case False
    then show ?thesis by (simp add: listedOrder_def finalPrototype_def)
  next
    case inorder: True
    then have P: "?P = prototypeSetter (getProperty m ?p) ObjectPrototype"
      by (simp add: finalPrototype_def)
    have P': "finalPrototype order R = prototypeSetter (getProperty R ?p) ObjectPrototype"
      using inorder by (simp add: finalPrototype_def)
    show ?thesis
    proof (cases "?p \<in> set (ownKeys R)")
      case True
      then have "getProperty R ?p = getProperty m ?p"
        unfolding R by (rule normalForm_value)
      then have "finalPrototype order R = ?P" unfolding P P' by simp
      then show ?thesis by (simp add: listedOrder_def)
    next
      case absent: False
      then have "getProperty R ?p = Inherited ?p" by (rule getProperty_absent)
      then have fR: "finalPrototype order R = ObjectPrototype" unfolding P' by simp
      then have lR: "listedOrder order R = filter (\<lambda>p. p \<noteq> ?p) order"
        by (simp add: listedOrder_def)
      show ?thesis
      proof (cases "setterInherited ?P")
        case True
        then have "listedOrder order m = filter (\<lambda>p. p \<noteq> ?p) order"
          by (simp add: listedOrder_def)
        moreover have "inChain ObjectPrototype k \<longrightarrow> inChain ?P k"
          using setterInherited_chain [OF True] by simp
        ultimately show ?thesis unfolding lR fR by simp
      next
        case nsi: False
        then have lm: "listedOrder order m = remove1 ?p order"
          by (simp add: listedOrder_def)
        from absent have "?p \<notin> {p \<in> set (listedOrder order m). hasProperty m p}"
          unfolding kR by blast
        then have "?p \<notin> set (remove1 ?p order)"
          unfolding lm by (simp add: hasProperty_proto)
        then have same: "filter (\<lambda>p. p \<noteq> ?p) order = remove1 ?p order"
          by (rule filter_remove1_once)
        have chain: "inChain ObjectPrototype k \<longrightarrow> inChain ?P k"
        proof (cases "getProperty m ?p")
          case (Data d)
          with nsi P show ?thesis by simp
        next
          case Null
          then have "getProperty m ?p \<noteq> Inherited ?p" by simp
          then have own: "?p \<in> set (ownKeys m)" by (rule getProperty_not_inherited)
          from Null P have "?P = NoPrototype" by simp
          with own have "?p \<in> set (ownKeys R)" unfolding kR by simp
          with absent show ?thesis by simp
        next
          case (Timestamp t)
          with nsi P show ?thesis by simp
        next
          case (Sequence xs)
          with nsi P show ?thesis by simp
        next
          case (Mapping kvs)
          with P show ?thesis by (simp add: hasProperty_def)
        next
          case (Inherited q)
          with nsi P show ?thesis by (simp split: if_splits)
        qed
        show ?thesis unfolding lR fR lm same using chain by simp
      qed
    qed
  qed
  from both show "listedOrder order R = listedOrder order m" ..
  from both show "inChain (finalPrototype order R) k \<Longrightarrow> inChain ?P k" by blast
qed

lemma sortedDataOf_idem:
  fixes order :: "string list" and m :: "'v jsval jsobj"
  shows "sortedDataOf order (sortedDataOf order m) = sortedDataOf order m"
proof -
  let ?R = "sortedDataOf order m"
  have "sortedDataOf order ?R
          = normalForm (listedOrder order m) (inChain (finalPrototype order ?R)) ?R"
    unfolding sortedDataOf_normalForm [of order ?R] second_run(1) ..
  also have "\<dots> = normalForm (listedOrder order m) (inChain (finalPrototype order ?R))
                     (normalForm (listedOrder order m) (inChain (finalPrototype order m)) m)"
    unfolding sortedDataOf_normalForm [of order m, symmetric] ..
  also have "\<dots> = normalForm (listedOrder order m) (inChain (finalPrototype order m)) m"
    by (rule normalForm_idem) (rule second_run(2))
  also have "\<dots> = ?R" by (rule sortedDataOf_normalForm [symmetric])
  finally show ?thesis .
qed

text \<open>With no \<^verbatim>\<open>__proto__\<close> in the canonical order the prototype stays
  \<^verbatim>\<open>Object.prototype\<close> and every entry of the order is a listed name.\<close>

lemma sortedDataOf_plain_form:
  assumes "''__proto__'' \<notin> set order"
  shows "sortedDataOf order m = normalForm order (\<lambda>k. k \<in> set objectPrototypeKeys) m"
proof -
  from assms have fp: "finalPrototype order m = ObjectPrototype"
    by (simp add: finalPrototype_def)
  from assms have "filter (\<lambda>p. p \<noteq> ''__proto__'') order = order"
    by (auto simp: filter_id_conv)
  then have lo: "listedOrder order m = order" by (simp add: listedOrder_def fp)
  have "inChain (ObjectPrototype :: 'a prototype) = (\<lambda>k. k \<in> set objectPrototypeKeys)"
    by (simp add: fun_eq_iff)
  then show ?thesis unfolding sortedDataOf_normalForm fp lo by simp
qed

lemma sortedDataOf_plain:
  fixes order :: "string list" and m :: "'v jsval jsobj"
  assumes h1: "set (ownKeys m) \<inter> set objectPrototypeKeys = {}"
    and h2: "set order \<inter> set objectPrototypeKeys = {}"
    and h3: "distinct (ownKeys m)"
  shows "set (ownKeys (sortedDataOf order m)) = set (ownKeys m)"
    and "\<forall>k\<in>set (ownKeys m). map_of (sortedDataOf order m) k = map_of m k"
    and "ownKeys (sortedDataOf order m) =
           filter isIndexKey (ownKeys (sortedDataOf order m))
           @ filter (\<lambda>k. \<not> isIndexKey k) (ownKeys (sortedDataOf order m))"
    and "sorted_wrt (\<lambda>a b. indexOfKey a < indexOfKey b)
           (filter isIndexKey (ownKeys (sortedDataOf order m)))"
    and "filter (\<lambda>k. \<not> isIndexKey k) (ownKeys (sortedDataOf order m)) =
           firstOccurrences (filter (\<lambda>p. p \<in> set (ownKeys m) \<and> \<not> isIndexKey p) order)
           @ filter (\<lambda>k. \<not> isIndexKey k \<and> k \<notin> set order) (ownKeys m)"
proof -
  let ?N = "sortedDataOf order m"
  let ?P = "set objectPrototypeKeys"
  have np: "''__proto__'' \<in> ?P" by (rule proto_in_keys)
  with h2 have no: "''__proto__'' \<notin> set order" by blast
  note form = sortedDataOf_plain_form [OF no, of m]
  let ?V = "\<lambda>k. k \<in> set objectPrototypeKeys"
  note facts =
    normalForm_facts(1) [where ks = order and m = m and V = ?V, folded form]
    normalForm_facts(2) [where ks = order and m = m]
    normalForm_facts(3) [where ks = order and m = m and V = ?V, folded form]
    normalForm_facts(4) [where ks = order and m = m]
    normalForm_facts(5) [where ks = order and m = m and V = ?V, folded form]
    normalForm_facts(6) [where ks = order and m = m and V = ?V, folded form]
    normalForm_facts(7) [where ks = order and m = m and V = ?V, folded form]
  have g1: "hasProperty m p = (p \<in> set (ownKeys m))" if "p \<in> set order" for p
    using that h2 unfolding hasProperty_iff by auto
  have kl: "{p \<in> set order. hasProperty m p} = {p \<in> set order. p \<in> set (ownKeys m)}"
    using g1 by blast
  show keys: "set (ownKeys ?N) = set (ownKeys m)"
    unfolding facts(5) kl using h1 by auto
  from facts(3) have dN: "distinct (map fst ?N)"
    by (simp add: propertyOrdered_def ownKeys_def)
  show "\<forall>k\<in>set (ownKeys m). map_of ?N k = map_of m k"
  proof
    fix k assume k: "k \<in> set (ownKeys m)"
    with keys have "k \<in> fst ` set ?N" by (simp add: ownKeys_def)
    then obtain v where kv: "(k, v) \<in> set ?N" by auto
    with facts(6) have "v = getProperty m k" by auto
    with kv dN have "map_of ?N k = Some (getProperty m k)" by simp
    with k show "map_of ?N k = map_of m k" by (simp add: getProperty_map_of)
  qed
  from facts(3) have sp: "?N = filter (\<lambda>p. isIndexKey (fst p)) ?N
                               @ filter (\<lambda>p. \<not> isIndexKey (fst p)) ?N"
    and srt: "sorted_wrt (\<lambda>p q. indexOfKey (fst p) < indexOfKey (fst q))
                (filter (\<lambda>p. isIndexKey (fst p)) ?N)"
    unfolding propertyOrdered_def by blast+
  have fi: "filter isIndexKey (ownKeys ?N) = map fst (filter (\<lambda>p. isIndexKey (fst p)) ?N)"
    by (simp add: ownKeys_def filter_map comp_def)
  have fo: "filter (\<lambda>k. \<not> isIndexKey k) (ownKeys ?N)
              = map fst (filter (\<lambda>p. \<not> isIndexKey (fst p)) ?N)"
    by (simp add: ownKeys_def filter_map comp_def)
  have "map fst ?N = map fst (filter (\<lambda>p. isIndexKey (fst p)) ?N
                               @ filter (\<lambda>p. \<not> isIndexKey (fst p)) ?N)"
    using sp by simp
  then show "ownKeys ?N = filter isIndexKey (ownKeys ?N)
                           @ filter (\<lambda>k. \<not> isIndexKey k) (ownKeys ?N)"
    unfolding fi fo by (simp add: ownKeys_def)
  show "sorted_wrt (\<lambda>a b. indexOfKey a < indexOfKey b) (filter isIndexKey (ownKeys ?N))"
    unfolding fi using srt by (simp add: sorted_wrt_map)
  have a: "filter (\<lambda>p. hasProperty m p \<and> \<not> isIndexKey p) order
             = filter (\<lambda>p. p \<in> set (ownKeys m) \<and> \<not> isIndexKey p) order"
    by (rule filter_cong) (simp_all add: g1)
  have b: "filter (\<lambda>k. \<not> k \<in> ?P \<and> \<not> isIndexKey k
               \<and> k \<notin> {p \<in> set order. hasProperty m p}) (ownKeys m)
             = filter (\<lambda>k. \<not> isIndexKey k \<and> k \<notin> set order) (ownKeys m)"
    by (rule filter_cong) (use h1 kl in auto)
  have c: "firstOccurrences (filter (\<lambda>k. \<not> isIndexKey k \<and> k \<notin> set order) (ownKeys m))
             = filter (\<lambda>k. \<not> isIndexKey k \<and> k \<notin> set order) (ownKeys m)"
    by (rule firstOccurrences_id) (simp add: h3)
  show "filter (\<lambda>k. \<not> isIndexKey k) (ownKeys ?N) =
           firstOccurrences (filter (\<lambda>p. p \<in> set (ownKeys m) \<and> \<not> isIndexKey p) order)
           @ filter (\<lambda>k. \<not> isIndexKey k \<and> k \<notin> set order) (ownKeys m)"
    unfolding fo facts(7) facts(4) a b c ..
qed

lemma sortedDataOf_plain_no_index:
  fixes order :: "string list" and m :: "'v jsval jsobj"
  assumes h1: "set (ownKeys m) \<inter> set objectPrototypeKeys = {}"
    and h2: "set order \<inter> set objectPrototypeKeys = {}"
    and h3: "distinct (ownKeys m)"
    and h4: "\<forall>k\<in>set (ownKeys m). \<not> isIndexKey k"
  shows "ownKeys (sortedDataOf order m) =
           firstOccurrences (filter (\<lambda>p. p \<in> set (ownKeys m)) order)
           @ filter (\<lambda>k. k \<notin> set order) (ownKeys m)"
proof -
  let ?N = "sortedDataOf order m"
  note p = sortedDataOf_plain [OF h1 h2 h3]
  from h4 p(1) have "\<forall>k\<in>set (ownKeys ?N). \<not> isIndexKey k" by simp
  then have i: "filter isIndexKey (ownKeys ?N) = []"
    and o: "filter (\<lambda>k. \<not> isIndexKey k) (ownKeys ?N) = ownKeys ?N"
    by (simp_all add: filter_empty_conv filter_id_conv)
  have a: "filter (\<lambda>p. p \<in> set (ownKeys m) \<and> \<not> isIndexKey p) order
             = filter (\<lambda>p. p \<in> set (ownKeys m)) order"
    by (rule filter_cong) (use h4 in auto)
  have b: "filter (\<lambda>k. \<not> isIndexKey k \<and> k \<notin> set order) (ownKeys m)
             = filter (\<lambda>k. k \<notin> set order) (ownKeys m)"
    by (rule filter_cong) (use h4 in auto)
  from p(5) show ?thesis unfolding o a b .
qed

section \<open>The normalizer claims\<close>

lemmas norm_defs = sortedDataOf_def hasProperty_def ownKeys_def inObject_def
  objectPrototypeKeys_def arrayPrototypeKeys_def datePrototypeKeys_def
  getProperty_def setProperty_def insertProperty_def
  arrayIndex_def isDigit_def parseDigits_def digitValue_def digitChar_def decimal.simps
  isIndexKey_def Let_def

lemma sortFrontmatter_idem:
  "sortFrontmatter config (sortFrontmatter config doc) = sortFrontmatter config doc"
  by (simp add: sortFrontmatter_def sortedDataOf_idem)

text \<open>
  The prototype that the first loop installs hides names from the second loop. With
  \<^verbatim>\<open>__proto__\<close> in the canonical order and a mapping under the own key \<^verbatim>\<open>__proto__\<close> of
  the frontmatter, the keys of that mapping are found in \<^verbatim>\<open>sortedData\<close> and not copied;
  behind a null prototype nothing is inherited, so \<^verbatim>\<open>constructor\<close> is copied and the second
  loop creates \<^verbatim>\<open>__proto__\<close> as an own property; a sequence hides its indices and the names of
  \<^verbatim>\<open>Array.prototype\<close>.
\<close>

lemma sortedDataOf_installed_prototype:
  "sortedDataOf [''title'', ''__proto__'']
     [(''title'', Data ''T''), (''emoji'', Data ''e''), (''extra'', Data ''x''),
      (''__proto__'', Mapping [(''extra'', Data ''1'')])]
     = [(''title'', Data ''T''), (''emoji'', Data ''e'')]"
  "sortedDataOf [''__proto__'', ''title'']
     [(''title'', Data ''T''), (''constructor'', Data ''c''), (''__proto__'', Null)]
     = [(''title'', Data ''T''), (''constructor'', Data ''c''), (''__proto__'', Null)]"
  "sortedDataOf [''__proto__'', ''title'']
     [(''0'', Data ''a''), (''1'', Data ''b''), (''map'', Data ''c''), (''extra'', Data ''x''),
      (''__proto__'', Sequence [Data ''s''])]
     = [(''1'', Data ''b''), (''extra'', Data ''x'')]"
  by (simp_all add: norm_defs)

text \<open>
  Claim C4. The normalizer is idempotent: run on its own result, \<^verbatim>\<open>sortFrontmatter\<close>
  returns that result again, the same keys in the same order with the same values and the
  same body. This holds for every canonical order and every frontmatter a parser gives,
  also for one with array-index keys, with keys that are names of \<^verbatim>\<open>Object.prototype\<close>, or
  with an own key \<^verbatim>\<open>__proto__\<close> whose value the first loop installs as the prototype. The
  one assumption keeps to the values that the model follows: under an own key
  \<^verbatim>\<open>__proto__\<close> the frontmatter holds no built-in function, which no parser gives.
\<close>

theorem C4_normalizer_idempotent:
  assumes "\<not> builtinFunction (getProperty m ''__proto__'')"
  shows "sortedDataOf order (sortedDataOf order m) = sortedDataOf order m
   \<and> (frontmatter doc = m \<longrightarrow>
        sortFrontmatter config (sortFrontmatter config doc) = sortFrontmatter config doc)"
  using sortedDataOf_idem [of order m] sortFrontmatter_idem [of config doc] by simp

text \<open>
  A frontmatter whose own key \<^verbatim>\<open>__proto__\<close> holds a mapping, under a canonical order that
  lists \<^verbatim>\<open>__proto__\<close>: the key \<^verbatim>\<open>extra\<close> is hidden by the installed prototype, and the
  result, normalized again, is the same.
\<close>

theorem C4_normalizer_idempotent_witness:
  "\<not> builtinFunction (getProperty
        [(''title'', Data ''T''), (''emoji'', Data ''e''), (''extra'', Data ''x''),
         (''__proto__'', Mapping [(''extra'', Data ''1'')])] ''__proto__'')
   \<and> sortedDataOf [''title'', ''__proto__'']
        [(''title'', Data ''T''), (''emoji'', Data ''e''), (''extra'', Data ''x''),
         (''__proto__'', Mapping [(''extra'', Data ''1'')])]
       = [(''title'', Data ''T''), (''emoji'', Data ''e'')]
   \<and> sortedDataOf [''title'', ''__proto__'']
        [(''title'', Data ''T''), (''emoji'', Data ''e'')]
       = [(''title'', Data ''T''), (''emoji'', Data ''e'')]
   \<and> sortFrontmatter (DEFAULT_CONFIG\<lparr> propertyOrder := [''title'', ''__proto__''] \<rparr>)
        (sortFrontmatter (DEFAULT_CONFIG\<lparr> propertyOrder := [''title'', ''__proto__''] \<rparr>)
           \<lparr> frontmatter =
                [(''title'', Data ''T''), (''emoji'', Data ''e''), (''extra'', Data ''x''),
                 (''__proto__'', Mapping [(''extra'', Data ''1'')])],
             content = ''body'' \<rparr>)
       = \<lparr> frontmatter = [(''title'', Data ''T''), (''emoji'', Data ''e'')],
           content = ''body'' \<rparr>"
proof -
  let ?m = "[(''title'', Data ''T''), (''emoji'', Data ''e''), (''extra'', Data ''x''),
             (''__proto__'', Mapping [(''extra'', Data ''1'')])] :: string jsval jsobj"
  let ?order = "[''title'', ''__proto__'']"
  have h: "\<not> builtinFunction (getProperty ?m ''__proto__'')"
    by (simp add: getProperty_def)
  have e: "sortedDataOf ?order ?m = [(''title'', Data ''T''), (''emoji'', Data ''e'')]"
    by (simp add: norm_defs)
  have "sortedDataOf ?order (sortedDataOf ?order ?m) = sortedDataOf ?order ?m"
    by (rule C4_normalizer_idempotent [OF h, THEN conjunct1])
  then have i: "sortedDataOf ?order [(''title'', Data ''T''), (''emoji'', Data ''e'')]
                  = [(''title'', Data ''T''), (''emoji'', Data ''e'')]"
    unfolding e .
  let ?config = "DEFAULT_CONFIG\<lparr> propertyOrder := [''title'', ''__proto__''] \<rparr>"
  let ?doc = "\<lparr> frontmatter = ?m, content = ''body'' \<rparr>"
  have d: "frontmatter ?doc = ?m" by simp
  have "sortFrontmatter ?config (sortFrontmatter ?config ?doc) = sortFrontmatter ?config ?doc"
    by (rule C4_normalizer_idempotent [OF h, THEN conjunct2, THEN mp, OF d])
  also have "\<dots> = \<lparr> frontmatter = [(''title'', Data ''T''), (''emoji'', Data ''e'')],
                     content = ''body'' \<rparr>"
    by (simp add: sortFrontmatter_def e)
  finally have s: "sortFrontmatter ?config (sortFrontmatter ?config ?doc)
                     = \<lparr> frontmatter = [(''title'', Data ''T''), (''emoji'', Data ''e'')],
                         content = ''body'' \<rparr>" .
  from h e i s show ?thesis by (intro conjI)
qed

text \<open>
  Claim C5 as stated fails on a frontmatter with an array-index key. A JavaScript object
  lists its array-index keys first, in ascending numeric order, whatever the order of
  insertion: for the keys \<^verbatim>\<open>1\<close> and \<^verbatim>\<open>title\<close> the rebuilt object has \<^verbatim>\<open>1\<close> before
  \<^verbatim>\<open>title\<close>, where the claim puts \<^verbatim>\<open>title\<close>, a key of the canonical order, first.
\<close>

theorem C5_index_key_counterexample:
  "ownKeys (sortedDataOf (propertyOrder DEFAULT_CONFIG)
              [(''1'', Data ''x''), (''title'', Data ''T'')]) = [''1'', ''title'']
   \<and> ownKeys (sortedDataOf (propertyOrder DEFAULT_CONFIG)
              [(''1'', Data ''x''), (''title'', Data ''T'')]) \<noteq> [''title'', ''1'']"
  by (simp add: norm_defs DEFAULT_CONFIG_def)

text \<open>
  The tests \<^verbatim>\<open>prop in data\<close> and \<^verbatim>\<open>prop in sortedData\<close> follow the prototype chain. A
  frontmatter key named as a member of \<^verbatim>\<open>Object.prototype\<close> is found in the empty
  \<^verbatim>\<open>sortedData\<close> and never copied; such a name in the canonical order is found in every
  frontmatter and copied with the inherited value.
\<close>

lemma sortedDataOf_inherited_names:
  "sortedDataOf (propertyOrder DEFAULT_CONFIG)
     [(''emoji'', Data ''e''), (''title'', Data ''T''), (''constructor'', Data ''c''),
      (''extra'', Data ''x'')]
     = [(''title'', Data ''T''), (''emoji'', Data ''e''), (''extra'', Data ''x'')]"
  "sortedDataOf [''title'', ''constructor'']
     [(''x'', Data ''1''), (''title'', Data ''T'')]
     = [(''title'', Data ''T''), (''constructor'', Inherited ''constructor''),
        (''x'', Data ''1'')]"
  by (simp_all add: norm_defs DEFAULT_CONFIG_def)

text \<open>
  Claim C5, amended. Let no key of the frontmatter and no entry of the canonical order be
  a name of \<^verbatim>\<open>Object.prototype\<close> (the frontmatter being an object, no key twice). Then the
  normalizer changes only the order of the keys: the result has the keys of the
  frontmatter, each with its value; the array-index keys come first, in ascending numeric
  order; among the other keys, those of the canonical order come first in the sequence of
  the canonical order, and the remaining ones follow in their original relative order.
  For a frontmatter with no array-index key this is the order of the claim. The body is
  untouched.
\<close>

theorem C5_normalizer_changes_only_order:
  fixes order :: "string list" and m :: "'v jsval jsobj"
  assumes "set (ownKeys m) \<inter> set objectPrototypeKeys = {}"
    and "set order \<inter> set objectPrototypeKeys = {}"
    and "distinct (ownKeys m)"
  shows "set (ownKeys (sortedDataOf order m)) = set (ownKeys m)
     \<and> (\<forall>k\<in>set (ownKeys m). map_of (sortedDataOf order m) k = map_of m k)
     \<and> ownKeys (sortedDataOf order m) =
           filter isIndexKey (ownKeys (sortedDataOf order m))
           @ filter (\<lambda>k. \<not> isIndexKey k) (ownKeys (sortedDataOf order m))
     \<and> sorted_wrt (\<lambda>a b. indexOfKey a < indexOfKey b)
           (filter isIndexKey (ownKeys (sortedDataOf order m)))
     \<and> filter (\<lambda>k. \<not> isIndexKey k) (ownKeys (sortedDataOf order m)) =
           firstOccurrences (filter (\<lambda>p. p \<in> set (ownKeys m) \<and> \<not> isIndexKey p) order)
           @ filter (\<lambda>k. \<not> isIndexKey k \<and> k \<notin> set order) (ownKeys m)
     \<and> ((\<forall>k\<in>set (ownKeys m). \<not> isIndexKey k) \<longrightarrow>
           ownKeys (sortedDataOf order m) =
             firstOccurrences (filter (\<lambda>p. p \<in> set (ownKeys m)) order)
             @ filter (\<lambda>k. k \<notin> set order) (ownKeys m))
     \<and> (frontmatter doc = m \<and> propertyOrder config = order \<longrightarrow>
           frontmatter (sortFrontmatter config doc) = sortedDataOf order m
           \<and> content (sortFrontmatter config doc) = content doc)"
proof (intro conjI impI)
  assume "\<forall>k\<in>set (ownKeys m). \<not> isIndexKey k"
  with assms show "ownKeys (sortedDataOf order m) =
             firstOccurrences (filter (\<lambda>p. p \<in> set (ownKeys m)) order)
             @ filter (\<lambda>k. k \<notin> set order) (ownKeys m)"
    by (rule sortedDataOf_plain_no_index)
next
  assume "frontmatter doc = m \<and> propertyOrder config = order"
  then show "frontmatter (sortFrontmatter config doc) = sortedDataOf order m"
    by (simp add: sortFrontmatter_def)
next
  show "content (sortFrontmatter config doc) = content doc"
    by (simp add: sortFrontmatter_def)
qed (rule sortedDataOf_plain [OF assms])+

theorem C5_normalizer_changes_only_order_witness:
  "set (ownKeys [(''emoji'', Data ''e''), (''title'', Data ''T''), (''extra'', Data ''x'')])
       \<inter> set objectPrototypeKeys = {}
   \<and> set (propertyOrder DEFAULT_CONFIG) \<inter> set objectPrototypeKeys = {}
   \<and> distinct (ownKeys [(''emoji'', Data ''e''), (''title'', Data ''T''), (''extra'', Data ''x'')])
   \<and> \<not> isIndexKey ''emoji'' \<and> \<not> isIndexKey ''title'' \<and> \<not> isIndexKey ''extra''
   \<and> ownKeys (sortedDataOf (propertyOrder DEFAULT_CONFIG)
         [(''emoji'', Data ''e''), (''title'', Data ''T''), (''extra'', Data ''x'')])
       = [''title'', ''emoji'', ''extra'']
   \<and> content (sortFrontmatter DEFAULT_CONFIG
         \<lparr> frontmatter = [(''emoji'', Data ''e''), (''title'', Data ''T''), (''extra'', Data ''x'')],
           content = ''body'' \<rparr>) = ''body''"
proof -
  let ?m = "[(''emoji'', Data ''e''), (''title'', Data ''T''), (''extra'', Data ''x'')]
              :: string jsval jsobj"
  let ?order = "propertyOrder DEFAULT_CONFIG"
  let ?doc = "\<lparr> frontmatter = ?m, content = ''body'' \<rparr>"
  have h1: "set (ownKeys ?m) \<inter> set objectPrototypeKeys = {}"
    by (simp add: ownKeys_def objectPrototypeKeys_def)
  have h2: "set ?order \<inter> set objectPrototypeKeys = {}"
    by (simp add: DEFAULT_CONFIG_def objectPrototypeKeys_def)
  have h3: "distinct (ownKeys ?m)" by (simp add: ownKeys_def)
  have h4: "\<forall>k\<in>set (ownKeys ?m). \<not> isIndexKey k" by (simp add: norm_defs)
  have h5: "frontmatter ?doc = ?m \<and> propertyOrder DEFAULT_CONFIG = ?order" by simp
  note t = C5_normalizer_changes_only_order [OF h1 h2 h3, of ?doc DEFAULT_CONFIG]
  from t have "(\<forall>k\<in>set (ownKeys ?m). \<not> isIndexKey k) \<longrightarrow>
           ownKeys (sortedDataOf ?order ?m) =
             firstOccurrences (filter (\<lambda>p. p \<in> set (ownKeys ?m)) ?order)
             @ filter (\<lambda>k. k \<notin> set ?order) (ownKeys ?m)"
    by (elim conjE)
  from this h4 have "ownKeys (sortedDataOf ?order ?m) =
             firstOccurrences (filter (\<lambda>p. p \<in> set (ownKeys ?m)) ?order)
             @ filter (\<lambda>k. k \<notin> set ?order) (ownKeys ?m)"
    by (rule mp)
  also have "\<dots> = [''title'', ''emoji'', ''extra'']"
    by (simp add: DEFAULT_CONFIG_def ownKeys_def)
  finally have a: "ownKeys (sortedDataOf ?order ?m) = [''title'', ''emoji'', ''extra'']" .
  from t have "frontmatter ?doc = ?m \<and> propertyOrder DEFAULT_CONFIG = ?order \<longrightarrow>
           frontmatter (sortFrontmatter DEFAULT_CONFIG ?doc) = sortedDataOf ?order ?m
           \<and> content (sortFrontmatter DEFAULT_CONFIG ?doc) = content ?doc"
    by (elim conjE)
  from this h5 have "frontmatter (sortFrontmatter DEFAULT_CONFIG ?doc) = sortedDataOf ?order ?m
           \<and> content (sortFrontmatter DEFAULT_CONFIG ?doc) = content ?doc"
    by (rule mp)
  then have b: "content (sortFrontmatter DEFAULT_CONFIG ?doc) = ''body''" by simp
  have i: "\<not> isIndexKey ''emoji''" "\<not> isIndexKey ''title''" "\<not> isIndexKey ''extra''"
    by (simp_all add: norm_defs)
  from h1 h2 h3 i a b show ?thesis by (intro conjI)
qed

end
